theory Spec2Isabelle
  imports Complex_Main "HOL-Library.Multiset"
begin

section \<open>Conventions of the embedding\<close>

text \<open>
  The memory engine is TypeScript. Its \<^verbatim>\<open>number\<close> values are modelled as \<^typ>\<open>real\<close> where
  they are scores, confidences or weights, as \<^typ>\<open>int\<close> where they are millisecond time
  stamps, and as \<^typ>\<open>nat\<close> where they are counts of loop iterations (hop and fact
  limits, which every caller passes as whole numbers). Rounding of IEEE doubles,
  \<^verbatim>\<open>NaN\<close> and infinities are outside the model; for that reason the order of two
  computed numbers is stated as \<open>\<le>\<close>, which rounding keeps, and as \<open><\<close> only between
  concrete values that are far apart.
  Strings are \<^typ>\<open>string\<close>; only ASCII text is modelled, so \<^verbatim>\<open>toLowerCase\<close> and the
  \<^verbatim>\<open>\s\<close> class act on ASCII characters. \<^verbatim>\<open>Date.now()\<close> is a parameter \<open>now\<close> of every
  function that reads the clock. A thrown exception is the \<open>Inl\<close> branch of a sum.
\<close>

section \<open>Decimal rendering\<close>

text \<open>The decimal digit of a number below ten.\<close>

definition digit_char :: "nat \<Rightarrow> char" where
  "digit_char d = ''0123456789'' ! (d mod 10)"

function show_nat :: "nat \<Rightarrow> string" where
  "show_nat n = (if n < 10 then [digit_char n] else show_nat (n div 10) @ [digit_char (n mod 10)])"
  by pat_completeness auto
termination
  by (relation "measure id") auto

declare show_nat.simps [simp del]

text \<open>\<^verbatim>\<open>String.prototype.padStart(w, "0")\<close> on a decimal numeral.\<close>

definition pad_nat :: "nat \<Rightarrow> nat \<Rightarrow> string" where
  "pad_nat w n = replicate (w - length (show_nat n)) CHR ''0'' @ show_nat n"

text \<open>
  \<^verbatim>\<open>Number.prototype.toFixed(2)\<close>: the integer \<open>n\<close> with \<open>n / 100\<close> nearest to the
  absolute value (the larger one on a tie), printed with two decimals; a negative
  number keeps its sign.
\<close>

definition toFixed2 :: "real \<Rightarrow> string" where
  "toFixed2 x =
     (let n = nat \<lfloor>\<bar>x\<bar> * 100 + 1 / 2\<rfloor>
      in (if x < 0 then ''-'' else '''') @ show_nat (n div 100) @ ''.'' @ pad_nat 2 (n mod 100))"

section \<open>Confidence tracker (confidence-tracker.ts)\<close>

datatype evidence_type = Supporting | Contradicting

record Evidence =
  ev_factId :: string
  ev_type :: evidence_type
  ev_strength :: real
  ev_addedAt :: int

record ConfidenceUpdate =
  cu_confidence :: real
  cu_reason :: string
  cu_evidence :: "Evidence option"

definition calculateConfidenceUpdate :: "real \<Rightarrow> evidence_type \<Rightarrow> real \<Rightarrow> ConfidenceUpdate" where
  "calculateConfidenceUpdate currentConfidence evidenceType evidenceStrength =
     (let strength = max 0 (min 1 evidenceStrength);
          delta = (if evidenceType = Supporting
                   then strength * (1 - currentConfidence) * 0.2
                   else - strength * currentConfidence * 0.3);
          newConfidence = max 0 (min 1 (currentConfidence + delta))
      in \<lparr> cu_confidence = newConfidence,
           cu_reason =
             (if evidenceType = Supporting
              then ''Supporting evidence (strength: '' @ toFixed2 strength @ '') increases confidence''
              else ''Contradicting evidence (strength: '' @ toFixed2 strength @ '') decreases confidence''),
           cu_evidence = None \<rparr>)"

text \<open>
  \<^verbatim>\<open>[...evidence].sort((a, b) => b.strength - a.strength)\<close>: the stable sort of
  ECMAScript, descending in the strength.
\<close>

definition sortedEvidence :: "Evidence list \<Rightarrow> Evidence list" where
  "sortedEvidence evidence = sort_key (\<lambda>e. - ev_strength e) evidence"

text \<open>The \<^verbatim>\<open>for (const ev of sortedEvidence)\<close> loop, threading \<^verbatim>\<open>confidence\<close>.\<close>

fun applyEvidence :: "real \<Rightarrow> Evidence list \<Rightarrow> real" where
  "applyEvidence confidence [] = confidence"
| "applyEvidence confidence (ev # rest) =
     applyEvidence (cu_confidence (calculateConfidenceUpdate confidence (ev_type ev) (ev_strength ev))) rest"

definition calculateConfidenceFromEvidence :: "real \<Rightarrow> Evidence list \<Rightarrow> real" where
  "calculateConfidenceFromEvidence initialConfidence evidence =
     applyEvidence initialConfidence (sortedEvidence evidence)"

text \<open>
  The specification's wording of the aggregation: one update per evidence item, folded
  from the left over a given order of the items.
\<close>

definition update_step :: "real \<Rightarrow> Evidence \<Rightarrow> real" where
  "update_step c e = cu_confidence (calculateConfidenceUpdate c (ev_type e) (ev_strength e))"

definition fold_updates :: "real \<Rightarrow> Evidence list \<Rightarrow> real" where
  "fold_updates c es = foldl update_step c es"

section \<open>Importance scorer (importance-scorer.ts)\<close>





section \<open>Strings (ECMAScript string methods on ASCII text)\<close>

definition isUpper :: "char \<Rightarrow> bool" where
  "isUpper c = (65 \<le> (of_char c :: nat) \<and> (of_char c :: nat) \<le> 90)"

text \<open>An upper-case letter becomes lower case by setting bit 5 (adding 32).\<close>

definition lowerChar :: "char \<Rightarrow> char" where
  "lowerChar c = (if isUpper c
                  then (case c of Char b0 b1 b2 b3 b4 b5 b6 b7 \<Rightarrow> Char b0 b1 b2 b3 b4 True b6 b7)
                  else c)"

definition toLowerCase :: "string \<Rightarrow> string" where
  "toLowerCase s = map lowerChar s"

text \<open>The class \<^verbatim>\<open>\s\<close>: space, tab, line feed, vertical tab, form feed, carriage return.\<close>

definition isSpace :: "char \<Rightarrow> bool" where
  "isSpace c = (c \<in> set [CHR '' '', CHR 0x09, CHR 0x0A, CHR 0x0B, CHR 0x0C, CHR 0x0D])"

definition startsWith :: "string \<Rightarrow> string \<Rightarrow> bool" where
  "startsWith s p = (take (length p) s = p)"

text \<open>\<^verbatim>\<open>String.prototype.includes\<close>: the word occurs at some position.\<close>

fun str_includes :: "string \<Rightarrow> string \<Rightarrow> bool" where
  "str_includes [] w = (w = [])"
| "str_includes (c # cs) w = (startsWith (c # cs) w \<or> str_includes cs w)"

text \<open>
  \<^verbatim>\<open>s.split(/\s+/)\<close>: the fields between maximal runs of white space; a leading or
  trailing run leaves an empty first or last field, and the empty string gives one
  empty field.
\<close>

fun splitWs :: "bool \<Rightarrow> string \<Rightarrow> string \<Rightarrow> string list" where
  "splitWs inSep cur [] = [cur]"
| "splitWs inSep cur (c # cs) =
     (if isSpace c then (if inSep then splitWs True cur cs else cur # splitWs True [] cs)
      else splitWs False (cur @ [c]) cs)"

definition split_whitespace :: "string \<Rightarrow> string list" where
  "split_whitespace s = splitWs False [] s"

text \<open>
  \<^verbatim>\<open>[...new Set(xs)]\<close>: the elements in the order of their first occurrence, once each.
\<close>

definition uniq :: "'a list \<Rightarrow> 'a list" where
  "uniq xs = rev (remdups (rev xs))"

section \<open>Facts and entities (entity-types.ts)\<close>

text \<open>
  \<^verbatim>\<open>FactType\<close> and \<^verbatim>\<open>EntityRelationType\<close> are unions of string literals. The page
  parser stores whatever text it reads in these fields, so they are strings here.
\<close>

type_synonym FactType = string

type_synonym EntityRelationType = string

record DateRange =
  dr_start :: int
  dr_end :: "int option"

record Fact =
  f_id :: string
  f_type :: FactType
  f_content :: string
  f_entities :: "string list"
  f_confidence :: "real option"
  f_source :: string
  f_timestamp :: int
  f_dateRange :: "DateRange option"
  f_supportingEvidence :: "string list option"
  f_contradictingEvidence :: "string list option"

section \<open>Conflict detection (confidence-tracker.ts)\<close>

record OpinionState =
  os_fact :: Fact
  os_confidence :: real
  os_supportingEvidence :: "Evidence list"
  os_contradictingEvidence :: "Evidence list"
  os_lastUpdated :: int

datatype ConflictType = Contradiction | Inconsistency | Overlap

record Conflict =
  c_factId1 :: string
  c_factId2 :: string
  c_type :: ConflictType
  c_severity :: real
  c_description :: string
  c_entities :: "string list"

definition negationWords :: "string list" where
  "negationWords = [''not'', ''no'', ''never'', ''none'', ''doesn't'', ''don't'', ''won't'', ''can't'']"

text \<open>\<^verbatim>\<open>new Set(content.split(/\s+/).filter((w) => w.length > 3))\<close>\<close>

definition longWords :: "string \<Rightarrow> string list" where
  "longWords content = uniq (filter (\<lambda>w. length w > 3) (split_whitespace content))"

text \<open>
  The word-set similarity shared by \<^verbatim>\<open>areContradictory\<close> and \<^verbatim>\<open>areInconsistent\<close>:
  the number of words of the first set that the second has, over the size of the
  union (at least 1).
\<close>

definition similarity :: "string \<Rightarrow> string \<Rightarrow> real" where
  "similarity content1 content2 =
     (let words1 = longWords content1;
          words2 = longWords content2;
          overlap = length (filter (\<lambda>w. w \<in> set words2) words1);
          totalUnique = length (uniq (words1 @ words2))
      in real overlap / real (max 1 totalUnique))"

definition sharedEntities :: "Fact \<Rightarrow> Fact \<Rightarrow> string list" where
  "sharedEntities fact1 fact2 = filter (\<lambda>e. e \<in> set (f_entities fact2)) (f_entities fact1)"

definition areContradictory :: "Fact \<Rightarrow> Fact \<Rightarrow> bool" where
  "areContradictory fact1 fact2 =
     (let content1 = toLowerCase (f_content fact1);
          content2 = toLowerCase (f_content fact2);
          hasNegation1 = list_ex (\<lambda>word. str_includes content1 word) negationWords;
          hasNegation2 = list_ex (\<lambda>word. str_includes content2 word) negationWords
      in if hasNegation1 \<noteq> hasNegation2
         then (if length (sharedEntities fact1 fact2) > 0
               then similarity content1 content2 > 0.3
               else False)
         else False)"

definition confidenceOrZero :: "Fact \<Rightarrow> real" where
  "confidenceOrZero fact0 = (case f_confidence fact0 of None \<Rightarrow> 0 | Some c \<Rightarrow> c)"

definition areInconsistent :: "Fact \<Rightarrow> Fact \<Rightarrow> bool" where
  "areInconsistent fact1 fact2 =
     (if length (sharedEntities fact1 fact2) = 0 then False
      else similarity (toLowerCase (f_content fact1)) (toLowerCase (f_content fact2)) > 0.4
           \<and> \<bar>confidenceOrZero fact1 - confidenceOrZero fact2\<bar> > 0.3)"

text \<open>The body of the inner loop: the conflicts pushed for one pair \<open>(op1, op2)\<close>.\<close>

definition pairConflicts :: "OpinionState \<Rightarrow> OpinionState \<Rightarrow> Conflict list" where
  "pairConflicts op1 op2 =
     (if areContradictory (os_fact op1) (os_fact op2)
      then [\<lparr> c_factId1 = f_id (os_fact op1), c_factId2 = f_id (os_fact op2),
              c_type = Contradiction,
              c_severity = \<bar>os_confidence op1 - os_confidence op2\<bar>,
              c_description = ''Opinions contradict each other: \"'' @ f_content (os_fact op1)
                              @ ''\" vs \"'' @ f_content (os_fact op2) @ ''\"'',
              c_entities = uniq (f_entities (os_fact op1) @ f_entities (os_fact op2)) \<rparr>]
      else [])
     @
     (if areInconsistent (os_fact op1) (os_fact op2)
      then [\<lparr> c_factId1 = f_id (os_fact op1), c_factId2 = f_id (os_fact op2),
              c_type = Inconsistency,
              c_severity = \<bar>os_confidence op1 - os_confidence op2\<bar> * 0.7,
              c_description = ''Opinions are inconsistent: \"'' @ f_content (os_fact op1)
                              @ ''\" vs \"'' @ f_content (os_fact op2) @ ''\"'',
              c_entities = uniq (f_entities (os_fact op1) @ f_entities (os_fact op2)) \<rparr>]
      else [])"

text \<open>The loop \<^verbatim>\<open>for (j = i + 1; ...)\<close> for a fixed \<open>op1 = opinions[i]\<close>.\<close>

fun conflictsWith :: "OpinionState \<Rightarrow> OpinionState list \<Rightarrow> Conflict list" where
  "conflictsWith op1 [] = []"
| "conflictsWith op1 (op2 # rest) = pairConflicts op1 op2 @ conflictsWith op1 rest"

text \<open>The loop \<^verbatim>\<open>for (i = 0; ...)\<close>.\<close>

fun collectConflicts :: "OpinionState list \<Rightarrow> Conflict list" where
  "collectConflicts [] = []"
| "collectConflicts (op1 # rest) = conflictsWith op1 rest @ collectConflicts rest"

definition detectConflicts :: "OpinionState list \<Rightarrow> Conflict list" where
  "detectConflicts opinions = sort_key (\<lambda>c. - c_severity c) (collectConflicts opinions)"

text \<open>What C7 compares: the unordered pair of fact ids, the type and the severity.\<close>

definition conflict_key :: "Conflict \<Rightarrow> string set \<times> ConflictType \<times> real" where
  "conflict_key c = ({c_factId1 c, c_factId2 c}, c_type c, c_severity c)"

text \<open>Two opinions about the same entity, one of them negated, used as a worked example.\<close>

definition example_opinion_a :: OpinionState where
  "example_opinion_a =
     \<lparr> os_fact = \<lparr> f_id = ''a'', f_type = ''opinion'', f_content = ''User likes short replies'',
                   f_entities = [''user''], f_confidence = Some 0.9, f_source = ''bank/opinions.md'',
                   f_timestamp = 0, f_dateRange = None, f_supportingEvidence = None,
                   f_contradictingEvidence = None \<rparr>,
       os_confidence = 0.9, os_supportingEvidence = [], os_contradictingEvidence = [],
       os_lastUpdated = 0 \<rparr>"

definition example_opinion_b :: OpinionState where
  "example_opinion_b =
     \<lparr> os_fact = \<lparr> f_id = ''b'', f_type = ''opinion'', f_content = ''user never likes short replies'',
                   f_entities = [''user''], f_confidence = Some 0.2, f_source = ''bank/opinions.md'',
                   f_timestamp = 0, f_dateRange = None, f_supportingEvidence = None,
                   f_contradictingEvidence = None \<rparr>,
       os_confidence = 0.2, os_supportingEvidence = [], os_contradictingEvidence = [],
       os_lastUpdated = 0 \<rparr>"

section \<open>Opinions manager (opinions-manager.ts)\<close>

text \<open>
  \<^verbatim>\<open>updateOpinionConfidence\<close> of confidence-tracker.ts. The source mutates the opinion in
  place; the model returns the updated opinion. \<^verbatim>\<open>opinion.fact.confidence || 0.5\<close> takes
  \<open>0.5\<close> for an absent and for a zero confidence.
\<close>

definition updateOpinionConfidence :: "int \<Rightarrow> OpinionState \<Rightarrow> Evidence \<Rightarrow> OpinionState" where
  "updateOpinionConfidence now opinion evidence =
     (let supporting = (if ev_type evidence = Supporting
                        then os_supportingEvidence opinion @ [evidence]
                        else os_supportingEvidence opinion);
          contradicting = (if ev_type evidence = Supporting
                           then os_contradictingEvidence opinion
                           else os_contradictingEvidence opinion @ [evidence]);
          allEvidence = supporting @ contradicting;
          initial = (case f_confidence (os_fact opinion) of
                       None \<Rightarrow> 0.5
                     | Some c \<Rightarrow> if c = 0 then 0.5 else c);
          newConfidence = calculateConfidenceFromEvidence initial allEvidence
      in \<lparr> os_fact = (os_fact opinion)
                \<lparr> f_confidence := Some newConfidence,
                  f_supportingEvidence := Some (map ev_factId supporting),
                  f_contradictingEvidence := Some (map ev_factId contradicting) \<rparr>,
           os_confidence = newConfidence,
           os_supportingEvidence = supporting,
           os_contradictingEvidence = contradicting,
           os_lastUpdated = now \<rparr>)"

datatype error =
    AlreadyExists string
  | NotFound string
  | IoError
  | RangeError

text \<open>
  What \<^verbatim>\<open>fs.readFile\<close> finds at a path: nothing (\<^verbatim>\<open>ENOENT\<close>), something that cannot be
  read (any other error code), or the text of the file.
\<close>

datatype file_state = Missing | Unreadable | Content string

record OpinionsStore =
  bankDirExists :: bool
  opinionsFile :: file_state

text \<open>
  The Markdown codec of the opinions file, \<^verbatim>\<open>parseOpinionsMarkdown\<close> (which reads the
  clock) and \<^verbatim>\<open>generateOpinionsMarkdown\<close>. Both go through \<^verbatim>\<open>toLocaleDateString\<close> and
  the date parser of the host, which ECMAScript leaves to the implementation, so the
  manager is modelled over any codec.
\<close>

record OpinionsCodec =
  parseOpinionsMarkdown :: "int \<Rightarrow> string \<Rightarrow> OpinionState list"
  generateOpinionsMarkdown :: "OpinionState list \<Rightarrow> string"

text \<open>
  Modelled from the spec: \<^verbatim>\<open>ensureDir\<close> of internal.js is not among the sources. The
  on-disk layout has one bank directory per workspace holding the opinions file;
  ensuring the directory creates it when absent and leaves its files alone.
\<close>

definition ensureDirectories :: "OpinionsStore \<Rightarrow> OpinionsStore" where
  "ensureDirectories st = st \<lparr> bankDirExists := True \<rparr>"

definition loadOpinions ::
  "OpinionsCodec \<Rightarrow> int \<Rightarrow> OpinionsStore \<Rightarrow> (error + OpinionState list) \<times> OpinionsStore" where
  "loadOpinions codec now st =
     (let st1 = ensureDirectories st
      in case opinionsFile st1 of
           Content text \<Rightarrow> (Inr (parseOpinionsMarkdown codec now text), st1)
         | Missing \<Rightarrow> (Inr [], st1)
         | Unreadable \<Rightarrow> (Inl IoError, st1))"

definition saveOpinions :: "OpinionsCodec \<Rightarrow> OpinionState list \<Rightarrow> OpinionsStore \<Rightarrow> OpinionsStore" where
  "saveOpinions codec opinions st =
     (ensureDirectories st) \<lparr> opinionsFile := Content (generateOpinionsMarkdown codec opinions) \<rparr>"

text \<open>\<^verbatim>\<open>opinions.find((o) => o.fact.id === factId)\<close>, as the index of the first match.\<close>

fun findOpinion :: "string \<Rightarrow> OpinionState list \<Rightarrow> nat option" where
  "findOpinion factId [] = None"
| "findOpinion factId (opinion # rest) =
     (if f_id (os_fact opinion) = factId then Some 0
      else map_option Suc (findOpinion factId rest))"

record UpdateResult =
  ur_opinion :: OpinionState
  ur_update :: ConfidenceUpdate

text \<open>
  \<^verbatim>\<open>OpinionsManager.updateConfidence\<close>. The opinion found is updated in place inside the
  loaded list, which is then saved.
\<close>

definition updateConfidence ::
  "OpinionsCodec \<Rightarrow> int \<Rightarrow> string \<Rightarrow> Evidence \<Rightarrow> OpinionsStore
     \<Rightarrow> (error + UpdateResult option) \<times> OpinionsStore" where
  "updateConfidence codec now factId evidence st =
     (case loadOpinions codec now st of
        (Inl e, st1) \<Rightarrow> (Inl e, st1)
      | (Inr opinions, st1) \<Rightarrow>
          (case findOpinion factId opinions of
             None \<Rightarrow> (Inr None, st1)
           | Some i \<Rightarrow>
               (let updated = updateOpinionConfidence now (opinions ! i) evidence;
                    update = \<lparr> cu_confidence = os_confidence updated,
                               cu_reason = ''Updated based on ''
                                 @ (if ev_type evidence = Supporting then ''supporting'' else ''contradicting'')
                                 @ '' evidence (strength: '' @ toFixed2 (ev_strength evidence) @ '')'',
                               cu_evidence = Some evidence \<rparr>;
                    st2 = saveOpinions codec (opinions[i := updated]) st1
                in (Inr (Some \<lparr> ur_opinion = updated, ur_update = update \<rparr>), st2))))"

text \<open>A codec that reads every file as the two example opinions, for worked examples.\<close>

definition example_codec :: OpinionsCodec where
  "example_codec =
     \<lparr> parseOpinionsMarkdown = (\<lambda>now text. [example_opinion_a, example_opinion_b]),
       generateOpinionsMarkdown = (\<lambda>opinions. concat (map (\<lambda>opinion. f_id (os_fact opinion)) opinions)) \<rparr>"

section \<open>More string methods\<close>

definition isLower :: "char \<Rightarrow> bool" where
  "isLower c = (97 \<le> (of_char c :: nat) \<and> (of_char c :: nat) \<le> 122)"

definition isDigit :: "char \<Rightarrow> bool" where
  "isDigit c = (48 \<le> (of_char c :: nat) \<and> (of_char c :: nat) \<le> 57)"

definition upperChar :: "char \<Rightarrow> char" where
  "upperChar c = (if isLower c
                  then (case c of Char b0 b1 b2 b3 b4 b5 b6 b7 \<Rightarrow> Char b0 b1 b2 b3 b4 False b6 b7)
                  else c)"

text \<open>\<^verbatim>\<open>String.prototype.trim\<close>.\<close>

definition trim :: "string \<Rightarrow> string" where
  "trim s = rev (dropWhile isSpace (rev (dropWhile isSpace s)))"

text \<open>\<^verbatim>\<open>s.split("\n")\<close> and \<^verbatim>\<open>lines.join("\n")\<close>.\<close>

fun split_nl :: "string \<Rightarrow> string list" where
  "split_nl [] = [[]]"
| "split_nl (c # cs) =
     (if c = CHR 0x0A then [] # split_nl cs
      else (case split_nl cs of l # ls \<Rightarrow> (c # l) # ls | [] \<Rightarrow> [[c]]))"

fun join_nl :: "string list \<Rightarrow> string" where
  "join_nl [] = []"
| "join_nl [l] = l"
| "join_nl (l # m # ls) = l @ CHR 0x0A # join_nl (m # ls)"

text \<open>The characters \<^verbatim>\<open>.\<close> matches in a regular expression: all but line terminators.\<close>

definition isLineTerminator :: "char \<Rightarrow> bool" where
  "isLineTerminator c = (c = CHR 0x0A \<or> c = CHR 0x0D)"

text \<open>\<^verbatim>\<open>s.replace(/\s+/g, "-")\<close>: every maximal run of white space becomes one hyphen.\<close>

fun replaceWs :: "bool \<Rightarrow> string \<Rightarrow> string" where
  "replaceWs inRun [] = []"
| "replaceWs inRun (c # cs) =
     (if isSpace c then (if inRun then replaceWs True cs else CHR ''-'' # replaceWs True cs)
      else c # replaceWs False cs)"

definition replaceWsRuns :: "string \<Rightarrow> string" where
  "replaceWsRuns s = replaceWs False s"

definition show_int :: "int \<Rightarrow> string" where
  "show_int i = (if i < 0 then ''-'' @ show_nat (nat (- i)) else show_nat (nat i))"

section \<open>Dates\<close>

text \<open>
  The day number since 1970-01-01 as a proleptic Gregorian date \<open>(year, month, day)\<close>,
  in eras of 400 years that start on 1 March.
\<close>

definition civil_from_days :: "int \<Rightarrow> int \<times> int \<times> int" where
  "civil_from_days days =
     (let z = days + 719468;
          era = z div 146097;
          doe = z mod 146097;
          yoe = (doe - doe div 1460 + doe div 36524 - doe div 146096) div 365;
          doy = doe - (365 * yoe + yoe div 4 - yoe div 100);
          mp = (5 * doy + 2) div 153;
          d = doy - (153 * mp + 2) div 5 + 1;
          m = (if mp < 10 then mp + 3 else mp - 9);
          y = yoe + era * 400 + (if m \<le> 2 then 1 else 0)
      in (y, m, d))"

definition days_from_civil :: "int \<Rightarrow> int \<Rightarrow> int \<Rightarrow> int" where
  "days_from_civil y m d =
     (let y' = (if m \<le> 2 then y - 1 else y);
          era = y' div 400;
          yoe = y' mod 400;
          doy = (153 * (if m > 2 then m - 3 else m + 9) + 2) div 5 + d - 1;
          doe = yoe * 365 + yoe div 4 - yoe div 100 + doy
      in era * 146097 + doe - 719468)"

text \<open>
  \<^verbatim>\<open>new Date(t).toISOString()\<close>: a \<^verbatim>\<open>RangeError\<close> outside the range of time values,
  otherwise \<^verbatim>\<open>YYYY-MM-DDTHH:mm:ss.sssZ\<close>, with a signed six-digit year outside 0..9999.
\<close>

definition toISOString :: "int \<Rightarrow> error + string" where
  "toISOString t =
     (if \<bar>t\<bar> > 8640000000000000 then Inl RangeError
      else
        (let r = t mod 86400000;
             ymd = civil_from_days (t div 86400000);
             y = fst ymd;
             year = (if 0 \<le> y \<and> y \<le> 9999 then pad_nat 4 (nat y)
                     else (if y < 0 then ''-'' else ''+'') @ pad_nat 6 (nat \<bar>y\<bar>))
         in Inr (year @ ''-'' @ pad_nat 2 (nat (fst (snd ymd))) @ ''-'' @ pad_nat 2 (nat (snd (snd ymd)))
                 @ ''T'' @ pad_nat 2 (nat (r div 3600000))
                 @ '':'' @ pad_nat 2 (nat (r div 60000 mod 60))
                 @ '':'' @ pad_nat 2 (nat (r div 1000 mod 60))
                 @ ''.'' @ pad_nat 3 (nat (r mod 1000)) @ ''Z'')))"

definition digit_val :: "char \<Rightarrow> nat" where
  "digit_val c = (of_char c :: nat) - 48"

definition digits_val :: "string \<Rightarrow> nat" where
  "digits_val s = foldl (\<lambda>a c. 10 * a + digit_val c) 0 s"

text \<open>
  The date-time format of \<^verbatim>\<open>toISOString\<close> with a four-digit year, read back to a time
  value. Every ECMAScript host reads this format; what a host makes of other text is
  left to it, so the host's date parser is a parameter of the page parser below, and
  this function is the parser of the example host.
\<close>

definition iso_parse :: "string \<Rightarrow> int option" where
  "iso_parse s =
     (if length s = 24
         \<and> list_all isDigit (take 4 s) \<and> s ! 4 = CHR ''-''
         \<and> list_all isDigit (take 2 (drop 5 s)) \<and> s ! 7 = CHR ''-''
         \<and> list_all isDigit (take 2 (drop 8 s)) \<and> s ! 10 = CHR ''T''
         \<and> list_all isDigit (take 2 (drop 11 s)) \<and> s ! 13 = CHR '':''
         \<and> list_all isDigit (take 2 (drop 14 s)) \<and> s ! 16 = CHR '':''
         \<and> list_all isDigit (take 2 (drop 17 s)) \<and> s ! 19 = CHR ''.''
         \<and> list_all isDigit (take 3 (drop 20 s)) \<and> s ! 23 = CHR ''Z''
      then
        (let y = int (digits_val (take 4 s));
             m = int (digits_val (take 2 (drop 5 s)));
             d = int (digits_val (take 2 (drop 8 s)));
             h = int (digits_val (take 2 (drop 11 s)));
             mi = int (digits_val (take 2 (drop 14 s)));
             sec = int (digits_val (take 2 (drop 17 s)));
             ms = int (digits_val (take 3 (drop 20 s)))
         in if 1 \<le> m \<and> m \<le> 12 \<and> 1 \<le> d \<and> d \<le> 31 \<and> h \<le> 23 \<and> mi \<le> 59 \<and> sec \<le> 59
            then Some (days_from_civil y m d * 86400000 + h * 3600000 + mi * 60000 + sec * 1000 + ms)
            else None)
      else None)"

text \<open>
  What the host supplies: \<^verbatim>\<open>Date.prototype.toLocaleDateString\<close>, which depends on the
  locale and time zone, and the parser behind \<^verbatim>\<open>new Date(string)\<close>, with \<open>None\<close> for
  an invalid date.
\<close>

record Host =
  toLocaleDateString :: "int \<Rightarrow> string"
  parseDate :: "string \<Rightarrow> int option"

text \<open>The example host prints a date as its day number and reads ISO date-times.\<close>

definition example_host :: Host where
  "example_host = \<lparr> toLocaleDateString = (\<lambda>t. show_int (t div 86400000)), parseDate = iso_parse \<rparr>"

section \<open>Entity pages (entity-types.ts, entity-templates.ts)\<close>

record EntityRelationship =
  rel_entity :: string
  rel_relation :: EntityRelationType
  rel_description :: "string option"
  rel_establishedAt :: int
  rel_sourceFactId :: "string option"

record EntityPage =
  ep_name :: string
  ep_displayName :: string
  ep_type :: string
  ep_description :: "string option"
  ep_facts :: "Fact list"
  ep_relationships :: "EntityRelationship list"
  ep_lastUpdated :: int
  ep_filePath :: string

text \<open>
  The separator the template writes before a relationship description, byte for byte
  as in the source file (a mis-encoded dash).
\<close>

definition relSeparator :: string where
  "relSeparator = [CHR 0xC3, CHR 0xA2, CHR 0xE2, CHR 0x82, CHR 0xAC, CHR 0xE2, CHR 0x80, CHR 0x9D]"

definition relationshipLine :: "EntityRelationship \<Rightarrow> string" where
  "relationshipLine rel =
     (let relDesc = (case rel_description rel of
                       None \<Rightarrow> ''''
                     | Some d \<Rightarrow> if d = '''' then '''' else '' '' @ relSeparator @ '' '' @ d)
      in ''- **'' @ rel_relation rel @ ''** ['' @ rel_entity rel @ ''](./'' @ rel_entity rel @ ''.md)'' @ relDesc)"

definition typeOrder :: "FactType list" where
  "typeOrder = [''world'', ''experience'', ''opinion'', ''observation'', ''summary'']"

text \<open>\<^verbatim>\<open>type.charAt(0).toUpperCase() + type.slice(1)\<close>\<close>

definition capitalize :: "string \<Rightarrow> string" where
  "capitalize s = (case s of [] \<Rightarrow> [] | c # cs \<Rightarrow> upperChar c # cs)"

definition confidenceSuffix :: "Fact \<Rightarrow> string" where
  "confidenceSuffix f = (case f_confidence f of None \<Rightarrow> '''' | Some c \<Rightarrow> '' (c='' @ toFixed2 c @ '')'')"

definition dateInfo :: "Host \<Rightarrow> Fact \<Rightarrow> string" where
  "dateInfo host f =
     (case f_dateRange f of
        None \<Rightarrow> ''''
      | Some dr \<Rightarrow>
          if dr_start dr \<noteq> 0 \<and> dr_start dr > 0
          then '' ('' @ toLocaleDateString host (dr_start dr)
               @ (case dr_end dr of
                    None \<Rightarrow> ''''
                  | Some e \<Rightarrow> if e = 0 then '''' else '' - '' @ toLocaleDateString host e)
               @ '')''
          else '''')"

definition sourceSuffix :: "Fact \<Rightarrow> string" where
  "sourceSuffix f = (if f_source f = '''' then '''' else '' [source]('' @ f_source f @ '')'')"

definition factLine :: "Host \<Rightarrow> Fact \<Rightarrow> string" where
  "factLine host f = ''- '' @ f_content f @ confidenceSuffix f @ dateInfo host f @ sourceSuffix f"

text \<open>The facts of one type, under their heading; nothing for a type without facts.\<close>

definition factGroup :: "Host \<Rightarrow> Fact list \<Rightarrow> FactType \<Rightarrow> string list" where
  "factGroup host facts t =
     (let group = filter (\<lambda>f. f_type f = t) facts
      in if group = [] then []
         else [''### '' @ capitalize t, ''''] @ map (factLine host) group @ [''''])"

definition factsSection :: "Host \<Rightarrow> Fact list \<Rightarrow> string list" where
  "factsSection host facts =
     (if length facts > 0
      then [''## Facts'', ''''] @ concat (map (factGroup host facts) typeOrder)
      else [''## Facts'', '''', ''_No facts recorded yet._'', ''''])"

definition hasItems :: "string list option \<Rightarrow> bool" where
  "hasItems xs = (case xs of None \<Rightarrow> False | Some l \<Rightarrow> length l > 0)"

definition evidenceLines :: "Fact \<Rightarrow> string list" where
  "evidenceLines f =
     (if hasItems (f_supportingEvidence f)
      then [''**Supporting '' @ f_id f @ '':**'']
           @ map (\<lambda>evId. ''- '' @ evId) (the (f_supportingEvidence f)) @ ['''']
      else [])
     @
     (if hasItems (f_contradictingEvidence f)
      then [''**Contradicting '' @ f_id f @ '':**'']
           @ map (\<lambda>evId. ''- '' @ evId) (the (f_contradictingEvidence f)) @ ['''']
      else [])"

definition evidenceSection :: "Fact list \<Rightarrow> string list" where
  "evidenceSection facts =
     (let opinionsWithEvidence =
            filter (\<lambda>f. f_type f = ''opinion''
                         \<and> (hasItems (f_supportingEvidence f) \<or> hasItems (f_contradictingEvidence f)))
                   facts
      in if length opinionsWithEvidence > 0
         then [''## Evidence'', ''''] @ concat (map evidenceLines opinionsWithEvidence)
         else [])"

definition headerLines :: "EntityPage \<Rightarrow> string \<Rightarrow> string list" where
  "headerLines entity isoText =
     [''# '' @ ep_displayName entity, '''']
     @ (if ep_type entity \<noteq> '''' then [''**Type:** '' @ ep_type entity] else [])
     @ (case ep_description entity of
          None \<Rightarrow> []
        | Some d \<Rightarrow> if d = '''' then [] else ['''', d])
     @ ['''', ''**Last Updated:** '' @ isoText, '''']"

definition relationshipsSection :: "EntityRelationship list \<Rightarrow> string list" where
  "relationshipsSection rels =
     (if length rels > 0
      then [''## Relationships'', ''''] @ map relationshipLine rels @ ['''']
      else [])"

definition pageLines :: "Host \<Rightarrow> EntityPage \<Rightarrow> string \<Rightarrow> string list" where
  "pageLines host entity isoText =
     headerLines entity isoText
     @ relationshipsSection (ep_relationships entity)
     @ factsSection host (ep_facts entity)
     @ evidenceSection (ep_facts entity)"

definition generateEntityPageMarkdown :: "Host \<Rightarrow> EntityPage \<Rightarrow> error + string" where
  "generateEntityPageMarkdown host entity =
     (case toISOString (ep_lastUpdated entity) of
        Inl e \<Rightarrow> Inl e
      | Inr isoText \<Rightarrow> Inr (join_nl (pageLines host entity isoText)))"

section \<open>Reading an entity page (parseEntityPageMarkdown)\<close>

text \<open>
  The regular expressions of the parser use negated character classes and literals
  only, so each has at most one way to match from a given position; the matchers
  below return the captured groups.

  \<^verbatim>\<open>/\/([^/]+)\.md$/\<close> on the file path: the text after the last slash, which must end
  in \<^verbatim>\<open>.md\<close> after at least one character.
\<close>

definition matchFileName :: "string \<Rightarrow> string option" where
  "matchFileName filePath =
     (if CHR ''/'' \<in> set filePath
      then (let seg = rev (takeWhile (\<lambda>c. c \<noteq> CHR ''/'') (rev filePath))
            in if length seg > 3 \<and> drop (length seg - 3) seg = ''.md''
               then Some (take (length seg - 3) seg)
               else None)
      else None)"

text \<open>
  \<^verbatim>\<open>/^- \*\*([^*]+)\*\* \[([^\]]+)\]\(\.\/([^)]+)\)(.*)$/\<close>: the relation, the link
  target and the rest of the line (the link text, group 2, is not used).
\<close>

definition matchRelationship :: "string \<Rightarrow> (string \<times> string \<times> string) option" where
  "matchRelationship s =
     (if startsWith s ''- **''
      then (let r1 = drop 4 s;
                relation = takeWhile (\<lambda>c. c \<noteq> CHR ''*'') r1;
                r2 = dropWhile (\<lambda>c. c \<noteq> CHR ''*'') r1
            in if relation \<noteq> [] \<and> startsWith r2 ''** [''
               then (let r3 = drop 4 r2;
                         linkText = takeWhile (\<lambda>c. c \<noteq> CHR '']'') r3;
                         r4 = dropWhile (\<lambda>c. c \<noteq> CHR '']'') r3
                     in if linkText \<noteq> [] \<and> startsWith r4 ''](./''
                        then (let r5 = drop 4 r4;
                                  entityName = takeWhile (\<lambda>c. c \<noteq> CHR '')'') r5;
                                  r6 = dropWhile (\<lambda>c. c \<noteq> CHR '')'') r5
                              in if entityName \<noteq> [] \<and> startsWith r6 '')''
                                    \<and> \<not> list_ex isLineTerminator (drop 1 r6)
                                 then Some (relation, entityName, drop 1 r6)
                                 else None)
                        else None)
               else None)
      else None)"

definition isNumChar :: "char \<Rightarrow> bool" where
  "isNumChar c = (isDigit c \<or> c = CHR ''.'')"

text \<open>\<^verbatim>\<open>/\(c=([0-9.]+)\)/\<close>: the leftmost match.\<close>

fun matchConfidence :: "string \<Rightarrow> string option" where
  "matchConfidence [] = None"
| "matchConfidence (c # cs) =
     (let run = takeWhile isNumChar (drop 3 (c # cs))
      in if startsWith (c # cs) ''(c='' \<and> run \<noteq> []
            \<and> startsWith (dropWhile isNumChar (drop 3 (c # cs))) '')''
         then Some run
         else matchConfidence cs)"

text \<open>\<^verbatim>\<open>/\[source\]\(([^)]+)\)/\<close>: the leftmost match.\<close>

fun matchSource :: "string \<Rightarrow> string option" where
  "matchSource [] = None"
| "matchSource (c # cs) =
     (let target = takeWhile (\<lambda>x. x \<noteq> CHR '')'') (drop 9 (c # cs))
      in if startsWith (c # cs) ''[source]('' \<and> target \<noteq> []
            \<and> startsWith (dropWhile (\<lambda>x. x \<noteq> CHR '')'') (drop 9 (c # cs))) '')''
         then Some target
         else matchSource cs)"

text \<open>\<^verbatim>\<open>/\*\*Last Updated:\*\* (.+)/\<close> on the whole page: the leftmost match.\<close>

fun matchLastUpdated :: "string \<Rightarrow> string option" where
  "matchLastUpdated [] = None"
| "matchLastUpdated (c # cs) =
     (let rest = takeWhile (\<lambda>x. \<not> isLineTerminator x) (drop 18 (c # cs))
      in if startsWith (c # cs) ''**Last Updated:** '' \<and> rest \<noteq> []
         then Some rest
         else matchLastUpdated cs)"

text \<open>
  \<^verbatim>\<open>parseFloat\<close> on a capture of \<^verbatim>\<open>[0-9.]+\<close>: the longest prefix that is a decimal
  literal. A capture without a digit in that prefix gives \<^verbatim>\<open>NaN\<close>; the model has no
  \<^verbatim>\<open>NaN\<close> and returns \<open>None\<close>.
\<close>

definition parseFloat :: "string \<Rightarrow> real option" where
  "parseFloat s =
     (let intPart = takeWhile isDigit s;
          r = dropWhile isDigit s;
          fracPart = (if startsWith r ''.'' then takeWhile isDigit (drop 1 r) else [])
      in if intPart = [] \<and> fracPart = [] then None
         else Some (real (digits_val intPart) + real (digits_val fracPart) / 10 ^ length fracPart))"

text \<open>
  The parser's working state: the fields of the partial entity it fills in, and the
  section and subsection the current line belongs to.
\<close>

record ParseState =
  ps_name :: "string option"
  ps_displayName :: "string option"
  ps_type :: "string option"
  ps_description :: "string option"
  ps_facts :: "Fact list"
  ps_relationships :: "EntityRelationship list"
  ps_section :: "string option"
  ps_subsection :: "string option"

definition initialParseState :: ParseState where
  "initialParseState =
     \<lparr> ps_name = None, ps_displayName = None, ps_type = None, ps_description = None,
       ps_facts = [], ps_relationships = [], ps_section = None, ps_subsection = None \<rparr>"

text \<open>A string-valued variable is falsy when it is \<^verbatim>\<open>null\<close>, \<^verbatim>\<open>undefined\<close> or empty.\<close>

definition falsy :: "string option \<Rightarrow> bool" where
  "falsy v = (v = None \<or> v = Some [])"

text \<open>The fact read from the text after \<^verbatim>\<open>- \<close> on line \<open>i\<close>.\<close>

definition parseFact :: "string \<Rightarrow> int \<Rightarrow> nat \<Rightarrow> string option \<Rightarrow> string \<Rightarrow> Fact" where
  "parseFact filePath now i currentSubsection factContent =
     (let confidenceMatch = matchConfidence factContent;
          sourceMatch = matchSource factContent
      in \<lparr> f_id = ''fact-'' @ show_int now @ ''-'' @ show_nat i,
           f_type = (case confidenceMatch of
                       Some m \<Rightarrow> ''opinion''
                     | None \<Rightarrow> if falsy currentSubsection then ''observation''
                               else the currentSubsection),
           f_content = factContent,
           f_entities = [],
           f_confidence = (case confidenceMatch of Some m \<Rightarrow> parseFloat m | None \<Rightarrow> None),
           f_source = (case sourceMatch of Some m \<Rightarrow> m | None \<Rightarrow> filePath),
           f_timestamp = now,
           f_dateRange = None,
           f_supportingEvidence = None,
           f_contradictingEvidence = None \<rparr>)"

text \<open>One turn of the loop over the lines; each branch ends in \<^verbatim>\<open>continue\<close>.\<close>

definition parseLine :: "string \<Rightarrow> int \<Rightarrow> nat \<Rightarrow> string \<Rightarrow> ParseState \<Rightarrow> ParseState" where
  "parseLine filePath now i line st =
     (let trimmed = trim line
      in if startsWith line ''# ''
         then (let displayName = drop 2 trimmed
               in st \<lparr> ps_displayName := Some displayName,
                       ps_name := Some (case matchFileName filePath of
                                          Some n \<Rightarrow> n
                                        | None \<Rightarrow> replaceWsRuns (toLowerCase displayName)) \<rparr>)
         else if startsWith trimmed ''**Type:**''
         then st \<lparr> ps_type := Some (trim (drop 9 trimmed)) \<rparr>
         else if falsy (ps_section st) \<and> trimmed \<noteq> [] \<and> \<not> startsWith trimmed ''**''
                 \<and> \<not> startsWith trimmed ''#''
         then st \<lparr> ps_description :=
                      Some (if falsy (ps_description st) then trimmed
                            else the (ps_description st) @ '' '' @ trimmed) \<rparr>
         else if startsWith line ''## ''
         then st \<lparr> ps_section := Some (toLowerCase (drop 3 trimmed)), ps_subsection := None \<rparr>
         else if startsWith line ''### ''
         then st \<lparr> ps_subsection := Some (toLowerCase (drop 4 trimmed)) \<rparr>
         else if ps_section st = Some ''relationships'' \<and> startsWith trimmed ''- **''
         then (case matchRelationship trimmed of
                 None \<Rightarrow> st
               | Some (relation, entityName, description) \<Rightarrow>
                   st \<lparr> ps_relationships := ps_relationships st @
                          [\<lparr> rel_entity = entityName,
                             rel_relation = relation,
                             rel_description = (if trim description = [] then None
                                                else Some (trim description)),
                             rel_establishedAt = now,
                             rel_sourceFactId = None \<rparr>] \<rparr>)
         else if ps_section st = Some ''facts'' \<and> startsWith trimmed ''- ''
         then st \<lparr> ps_facts := ps_facts st
                       @ [parseFact filePath now i (ps_subsection st) (drop 2 trimmed)] \<rparr>
         else st)"

text \<open>The loop \<^verbatim>\<open>for (let i = 0; i < lines.length; i++)\<close>.\<close>

fun parseLines :: "string \<Rightarrow> int \<Rightarrow> nat \<Rightarrow> string list \<Rightarrow> ParseState \<Rightarrow> ParseState" where
  "parseLines filePath now i [] st = st"
| "parseLines filePath now i (line # rest) st =
     parseLines filePath now (Suc i) rest (parseLine filePath now i line st)"

text \<open>
  The \<^verbatim>\<open>Partial<EntityPage>\<close> the parser returns. \<^verbatim>\<open>facts\<close>, \<^verbatim>\<open>relationships\<close>,
  \<^verbatim>\<open>filePath\<close> and \<^verbatim>\<open>lastUpdated\<close> are always set.
\<close>

record ParsedEntity =
  pe_name :: "string option"
  pe_displayName :: "string option"
  pe_type :: "string option"
  pe_description :: "string option"
  pe_facts :: "Fact list"
  pe_relationships :: "EntityRelationship list"
  pe_lastUpdated :: int
  pe_filePath :: string

text \<open>
  The time read from the \<^verbatim>\<open>Last Updated\<close> line. An invalid date and the time value
  \<open>0\<close> (which is falsy) both fall back to the clock.
\<close>

definition parseLastUpdated :: "Host \<Rightarrow> int \<Rightarrow> string \<Rightarrow> int" where
  "parseLastUpdated host now content =
     (case matchLastUpdated content of
        None \<Rightarrow> now
      | Some m \<Rightarrow> (case parseDate host m of
                     None \<Rightarrow> now
                   | Some t \<Rightarrow> if t = 0 then now else t))"

definition parseEntityPageMarkdown :: "Host \<Rightarrow> int \<Rightarrow> string \<Rightarrow> string \<Rightarrow> ParsedEntity" where
  "parseEntityPageMarkdown host now content filePath =
     (let st = parseLines filePath now 0 (split_nl content) initialParseState
      in \<lparr> pe_name = ps_name st,
           pe_displayName = ps_displayName st,
           pe_type = ps_type st,
           pe_description = ps_description st,
           pe_facts = ps_facts st,
           pe_relationships = ps_relationships st,
           pe_lastUpdated = parseLastUpdated host now content,
           pe_filePath = filePath \<rparr>)"

section \<open>What a page keeps of an entity\<close>

text \<open>
  The statements about writing a page and reading it back are made for entities whose
  text fits the page format: every string is one line, and a string does not hold the
  character that ends it on the page.
\<close>

definition singleLine :: "string \<Rightarrow> bool" where
  "singleLine s = (\<not> list_ex isLineTerminator s)"

text \<open>\<^verbatim>\<open>String.prototype.trimEnd\<close>, which is \<^verbatim>\<open>trim\<close> on a string that starts with text.\<close>

definition trimEnd :: "string \<Rightarrow> string" where
  "trimEnd s = rev (dropWhile isSpace (rev s))"

definition noTrailingSpace :: "string \<Rightarrow> bool" where
  "noTrailingSpace s = (s = [] \<or> \<not> isSpace (last s))"

definition noSurroundingSpace :: "string \<Rightarrow> bool" where
  "noSurroundingSpace s = (s \<noteq> [] \<and> \<not> isSpace (hd s) \<and> \<not> isSpace (last s))"

text \<open>
  A fact fits the page when its type is one of the five, its content is one line
  without \<^verbatim>\<open>(\<close> and \<^verbatim>\<open>[\<close>, its source is one non-empty line without \<^verbatim>\<open>)\<close> and \<^verbatim>\<open>=\<close>,
  a confidence is given for opinions only and lies in \<open>[0,1]\<close>, no date range is
  rendered, and its id and its evidence ids are single lines.
\<close>

definition wellFormedFact :: "Fact \<Rightarrow> bool" where
  "wellFormedFact f =
     (f_type f \<in> set typeOrder
      \<and> singleLine (f_content f) \<and> CHR ''('' \<notin> set (f_content f) \<and> CHR ''['' \<notin> set (f_content f)
      \<and> f_source f \<noteq> [] \<and> singleLine (f_source f)
      \<and> CHR '')'' \<notin> set (f_source f) \<and> CHR ''='' \<notin> set (f_source f)
      \<and> (case f_confidence f of None \<Rightarrow> True | Some c \<Rightarrow> 0 \<le> c \<and> c \<le> 1 \<and> f_type f = ''opinion'')
      \<and> (case f_dateRange f of None \<Rightarrow> True | Some dr \<Rightarrow> dr_start dr \<le> 0)
      \<and> singleLine (f_id f)
      \<and> (case f_supportingEvidence f of None \<Rightarrow> True | Some ids \<Rightarrow> list_all singleLine ids)
      \<and> (case f_contradictingEvidence f of None \<Rightarrow> True | Some ids \<Rightarrow> list_all singleLine ids))"

text \<open>
  A relationship fits the page when its relation is one non-empty line without \<^verbatim>\<open>*\<close>,
  its entity one non-empty line without \<^verbatim>\<open>]\<close> and \<^verbatim>\<open>)\<close>, and its description one line.
\<close>

definition wellFormedRelationship :: "EntityRelationship \<Rightarrow> bool" where
  "wellFormedRelationship rel =
     (rel_relation rel \<noteq> [] \<and> singleLine (rel_relation rel) \<and> CHR ''*'' \<notin> set (rel_relation rel)
      \<and> rel_entity rel \<noteq> [] \<and> singleLine (rel_entity rel)
      \<and> CHR '']'' \<notin> set (rel_entity rel) \<and> CHR '')'' \<notin> set (rel_entity rel)
      \<and> (case rel_description rel of None \<Rightarrow> True | Some d \<Rightarrow> singleLine d))"

text \<open>
  An entity fits the page when its display name is one line that does not end in white
  space, its type one non-empty line without white space around it, its description
  (when there is one) one non-empty line without white space around it that starts
  with neither \<^verbatim>\<open>**\<close> nor \<^verbatim>\<open>#\<close>, its time a time value, its file the one of its name,
  and its facts and relationships fit.
\<close>

definition wellFormedPage :: "EntityPage \<Rightarrow> bool" where
  "wellFormedPage entity =
     (singleLine (ep_displayName entity) \<and> noTrailingSpace (ep_displayName entity)
      \<and> singleLine (ep_type entity) \<and> noSurroundingSpace (ep_type entity)
      \<and> (case ep_description entity of
            None \<Rightarrow> True
          | Some d \<Rightarrow> singleLine d \<and> noSurroundingSpace d
                      \<and> \<not> startsWith d ''**'' \<and> \<not> startsWith d ''#'')
      \<and> \<bar>ep_lastUpdated entity\<bar> \<le> 8640000000000000
      \<and> ep_name entity \<noteq> [] \<and> CHR ''/'' \<notin> set (ep_name entity)
      \<and> ep_filePath entity = ''bank/entities/'' @ ep_name entity @ ''.md''
      \<and> list_all wellFormedRelationship (ep_relationships entity)
      \<and> list_all wellFormedFact (ep_facts entity))"

text \<open>The facts in the order of the page: by type, in the order of \<^verbatim>\<open>typeOrder\<close>.\<close>

definition groupedFacts :: "Fact list \<Rightarrow> Fact list" where
  "groupedFacts facts = concat (map (\<lambda>t. filter (\<lambda>f. f_type f = t) facts) typeOrder)"

text \<open>A confidence to two decimals, as \<^verbatim>\<open>toFixed(2)\<close> prints it.\<close>

definition roundedConfidence :: "real \<Rightarrow> real" where
  "roundedConfidence c = real (nat \<lfloor>\<bar>c\<bar> * 100 + 1 / 2\<rfloor>) / 100"

text \<open>
  What is compared of a fact: its type, its confidence and its source, as the parser
  returns them and as the page holds them (the confidence to two decimals).
\<close>

definition factFields :: "Fact \<Rightarrow> FactType \<times> real option \<times> string" where
  "factFields f = (f_type f, f_confidence f, f_source f)"

definition pageFields :: "Fact \<Rightarrow> FactType \<times> real option \<times> string" where
  "pageFields f = (f_type f, map_option roundedConfidence (f_confidence f), f_source f)"

text \<open>
  An entity with a fact of each type, a symmetric and an asymmetric relationship, for
  worked examples.
\<close>

definition example_fact :: "string \<Rightarrow> FactType \<Rightarrow> string \<Rightarrow> real option \<Rightarrow> Fact" where
  "example_fact ident kind content confidence =
     \<lparr> f_id = ident, f_type = kind, f_content = content, f_entities = [''alice''],
       f_confidence = confidence, f_source = ''memory/2025-02-01.md#L12'', f_timestamp = 86400000,
       f_dateRange = None, f_supportingEvidence = None, f_contradictingEvidence = None \<rparr>"

definition example_page :: EntityPage where
  "example_page =
     \<lparr> ep_name = ''alice'', ep_displayName = ''Alice'', ep_type = ''person'',
       ep_description = Some ''A colleague'',
       ep_facts =
         [example_fact ''f1'' ''opinion'' ''Prefers tea'' (Some 0.9),
          example_fact ''f2'' ''world'' ''Lives in Oslo'' None,
          example_fact ''f3'' ''experience'' ''Fixed the parser'' None,
          example_fact ''f4'' ''summary'' ''Works on memory'' None,
          example_fact ''f5'' ''observation'' ''Answers quickly'' None],
       ep_relationships =
         [\<lparr> rel_entity = ''bob'', rel_relation = ''knows'', rel_description = Some ''since school'',
            rel_establishedAt = 1000, rel_sourceFactId = None \<rparr>,
          \<lparr> rel_entity = ''carol'', rel_relation = ''manages'', rel_description = None,
            rel_establishedAt = 1000, rel_sourceFactId = None \<rparr>],
       ep_lastUpdated = 86400000,
       ep_filePath = ''bank/entities/alice.md'' \<rparr>"

definition example_content :: string where
  "example_content =
     (case generateEntityPageMarkdown example_host example_page of Inl e \<Rightarrow> [] | Inr content \<Rightarrow> content)"

definition example_parsed :: ParsedEntity where
  "example_parsed = parseEntityPageMarkdown example_host 5000 example_content ''bank/entities/alice.md''"

section \<open>Entity manager (entity-manager.ts)\<close>

text \<open>\<^verbatim>\<open>s.replace(/[^a-z0-9-]/g, "-")\<close>\<close>

definition isSlugChar :: "char \<Rightarrow> bool" where
  "isSlugChar c = (isLower c \<or> isDigit c \<or> c = CHR ''-'')"

definition replaceNonSlug :: "string \<Rightarrow> string" where
  "replaceNonSlug s = map (\<lambda>c. if isSlugChar c then c else CHR ''-'') s"

text \<open>\<^verbatim>\<open>s.replace(/-+/g, "-")\<close>\<close>

fun collapseHyphens :: "string \<Rightarrow> string" where
  "collapseHyphens (c # d # rest) =
     (if c = CHR ''-'' \<and> d = CHR ''-'' then collapseHyphens (d # rest)
      else c # collapseHyphens (d # rest))"
| "collapseHyphens s = s"

text \<open>
  \<^verbatim>\<open>s.replace(/^-|-$/g, "")\<close>: one hyphen less at the start, and one less at the end of
  what is left.
\<close>

definition stripEdgeHyphens :: "string \<Rightarrow> string" where
  "stripEdgeHyphens s =
     (let s1 = (if startsWith s ''-'' then drop 1 s else s)
      in if s1 \<noteq> [] \<and> last s1 = CHR ''-'' then butlast s1 else s1)"

definition normalizeEntityName :: "string \<Rightarrow> string" where
  "normalizeEntityName name = stripEdgeHyphens (collapseHyphens (replaceNonSlug (toLowerCase name)))"

text \<open>
  The entities directory: the files in the order \<^verbatim>\<open>readdir\<close> lists them, each with its
  text, and whether the directories have been created. \<^verbatim>\<open>getEntityFilePath\<close> gives
  the file name inside the directory. Of the failures of the file system only the
  missing file (\<^verbatim>\<open>ENOENT\<close>) is modelled here.
\<close>

record EntityStore =
  dirsExist :: bool
  files :: "(string \<times> string) list"

definition getEntityFilePath :: "string \<Rightarrow> string" where
  "getEntityFilePath name =
     stripEdgeHyphens (collapseHyphens (replaceNonSlug (toLowerCase name))) @ ''.md''"

text \<open>
  Modelled from the spec: \<^verbatim>\<open>ensureDir\<close> of internal.js is not among the sources; it
  creates the bank and entities directories when absent and leaves the files alone.
\<close>

definition ensureEntityDirs :: "EntityStore \<Rightarrow> EntityStore" where
  "ensureEntityDirs st = st \<lparr> dirsExist := True \<rparr>"

text \<open>\<^verbatim>\<open>fs.writeFile\<close>: replaces the text of an existing file, or adds the file.\<close>

fun writeFile :: "string \<Rightarrow> string \<Rightarrow> (string \<times> string) list \<Rightarrow> (string \<times> string) list" where
  "writeFile path text [] = [(path, text)]"
| "writeFile path text ((p, t) # rest) =
     (if p = path then (path, text) # rest else (p, t) # writeFile path text rest)"

record EntityCreateOptions =
  co_displayName :: "string option"
  co_type :: "string option"
  co_description :: "string option"

definition createEntity ::
  "Host \<Rightarrow> int \<Rightarrow> string \<Rightarrow> EntityCreateOptions \<Rightarrow> EntityStore \<Rightarrow> (error + EntityPage) \<times> EntityStore" where
  "createEntity host now name options st =
     (let st1 = ensureEntityDirs st;
          normalizedName = normalizeEntityName name;
          filePath = getEntityFilePath normalizedName
      in if map_of (files st1) filePath \<noteq> None
         then (Inl (AlreadyExists name), st1)
         else
           (let entity =
                  \<lparr> ep_name = normalizedName,
                    ep_displayName = (if falsy (co_displayName options) then name
                                      else the (co_displayName options)),
                    ep_type = (if falsy (co_type options) then ''unknown'' else the (co_type options)),
                    ep_description = co_description options,
                    ep_facts = [],
                    ep_relationships = [],
                    ep_lastUpdated = now,
                    ep_filePath = ''bank/entities/'' @ normalizedName @ ''.md'' \<rparr>
            in case generateEntityPageMarkdown host entity of
                 Inl e \<Rightarrow> (Inl e, st1)
               | Inr content \<Rightarrow>
                   (Inr entity, st1 \<lparr> files := writeFile filePath content (files st1) \<rparr>)))"

definition getEntity :: "Host \<Rightarrow> int \<Rightarrow> string \<Rightarrow> EntityStore \<Rightarrow> EntityPage option \<times> EntityStore" where
  "getEntity host now name st =
     (let st1 = ensureEntityDirs st;
          normalizedName = normalizeEntityName name;
          filePath = getEntityFilePath normalizedName
      in case map_of (files st1) filePath of
           None \<Rightarrow> (None, st1)
         | Some content \<Rightarrow>
             (let parsed = parseEntityPageMarkdown host now content
                             (''bank/entities/'' @ normalizedName @ ''.md'')
              in if falsy (pe_name parsed) \<or> falsy (pe_displayName parsed) then (None, st1)
                 else (Some \<lparr> ep_name = the (pe_name parsed),
                              ep_displayName = the (pe_displayName parsed),
                              ep_type = (if falsy (pe_type parsed) then ''unknown''
                                         else the (pe_type parsed)),
                              ep_description = pe_description parsed,
                              ep_facts = pe_facts parsed,
                              ep_relationships = pe_relationships parsed,
                              ep_lastUpdated = (if pe_lastUpdated parsed = 0 then now
                                                else pe_lastUpdated parsed),
                              ep_filePath = (if pe_filePath parsed = []
                                             then ''bank/entities/'' @ normalizedName @ ''.md''
                                             else pe_filePath parsed) \<rparr>, st1)))"






text \<open>A slug: lower-case letters, digits and single hyphens, none of them at an end.\<close>

fun noDoubleHyphen :: "string \<Rightarrow> bool" where
  "noDoubleHyphen (c # d # rest) = (\<not> (c = CHR ''-'' \<and> d = CHR ''-'') \<and> noDoubleHyphen (d # rest))"
| "noDoubleHyphen s = True"

definition isSlug :: "string \<Rightarrow> bool" where
  "isSlug s = (list_all isSlugChar s \<and> noDoubleHyphen s
               \<and> \<not> startsWith s ''-'' \<and> (s = [] \<or> last s \<noteq> CHR ''-''))"

section \<open>Listing and querying entities (entity-manager.ts)\<close>

record EntitySummary =
  es_name :: string
  es_displayName :: string
  es_type :: string
  es_summary :: string
  es_keyFacts :: "Fact list"
  es_relationshipCount :: nat
  es_lastUpdated :: int

text \<open>
  \<^verbatim>\<open>Array.prototype.sort(compare)\<close> for a consistent comparison function: the stable
  sort, an element staying before a later one unless the comparison is positive.
\<close>

fun insertBy :: "('a \<Rightarrow> 'a \<Rightarrow> real) \<Rightarrow> 'a \<Rightarrow> 'a list \<Rightarrow> 'a list" where
  "insertBy compare x [] = [x]"
| "insertBy compare x (y # ys) =
     (if compare x y \<le> 0 then x # y # ys else y # insertBy compare x ys)"

definition sortBy :: "('a \<Rightarrow> 'a \<Rightarrow> real) \<Rightarrow> 'a list \<Rightarrow> 'a list" where
  "sortBy compare xs = foldr (insertBy compare) xs []"

text \<open>The comparison of \<^verbatim>\<open>listEntities\<close>: opinions first, by confidence, then by recency.\<close>

definition compareKeyFacts :: "Fact \<Rightarrow> Fact \<Rightarrow> real" where
  "compareKeyFacts a b =
     (if f_type a = ''opinion'' \<and> f_type b \<noteq> ''opinion'' then - 1
      else if f_type b = ''opinion'' \<and> f_type a \<noteq> ''opinion'' then 1
      else if f_type a = ''opinion'' \<and> f_type b = ''opinion''
      then confidenceOrZero b - confidenceOrZero a
      else real_of_int (f_timestamp b - f_timestamp a))"

definition endsWith :: "string \<Rightarrow> string \<Rightarrow> bool" where
  "endsWith s suffix = (length suffix \<le> length s \<and> drop (length s - length suffix) s = suffix)"

definition summarize :: "EntityPage \<Rightarrow> EntitySummary" where
  "summarize entity =
     \<lparr> es_name = ep_name entity,
       es_displayName = ep_displayName entity,
       es_type = ep_type entity,
       es_summary = (if falsy (ep_description entity) then ''Entity of type '' @ ep_type entity
                     else the (ep_description entity)),
       es_keyFacts = take 5 (sortBy compareKeyFacts (ep_facts entity)),
       es_relationshipCount = length (ep_relationships entity),
       es_lastUpdated = ep_lastUpdated entity \<rparr>"

text \<open>The loop over the directory listing; files that are no pages or cannot be read as an entity are skipped.\<close>

fun summarizeFiles :: "Host \<Rightarrow> int \<Rightarrow> EntityStore \<Rightarrow> string list \<Rightarrow> EntitySummary list" where
  "summarizeFiles host now st [] = []"
| "summarizeFiles host now st (file # rest) =
     (if \<not> endsWith file ''.md'' then summarizeFiles host now st rest
      else (case fst (getEntity host now (take (length file - 3) file) st) of
              None \<Rightarrow> summarizeFiles host now st rest
            | Some entity \<Rightarrow> summarize entity # summarizeFiles host now st rest))"

definition listEntities :: "Host \<Rightarrow> int \<Rightarrow> EntityStore \<Rightarrow> EntitySummary list \<times> EntityStore" where
  "listEntities host now st =
     (let st1 = ensureEntityDirs st
      in (sort_key (\<lambda>s. - es_lastUpdated s) (summarizeFiles host now st1 (map fst (files st1))), st1))"

record EntityQueryOptions =
  qo_factType :: "FactType option"
  qo_since :: "int option"
  qo_until :: "int option"
  qo_relationType :: "EntityRelationType option"
  qo_limit :: "nat option"

text \<open>\<^verbatim>\<open>f.dateRange?.start || f.timestamp\<close>\<close>

definition factTime :: "Fact \<Rightarrow> int" where
  "factTime f = (case f_dateRange f of
                   None \<Rightarrow> f_timestamp f
                 | Some dr \<Rightarrow> if dr_start dr = 0 then f_timestamp f else dr_start dr)"

text \<open>\<^verbatim>\<open>options.since?.getTime() || 0\<close> and \<^verbatim>\<open>options.until?.getTime() || Date.now()\<close>\<close>

definition sinceTs :: "EntityQueryOptions \<Rightarrow> int" where
  "sinceTs options = (case qo_since options of None \<Rightarrow> 0 | Some t \<Rightarrow> t)"

definition untilTs :: "EntityQueryOptions \<Rightarrow> int \<Rightarrow> int" where
  "untilTs options now = (case qo_until options of None \<Rightarrow> now | Some t \<Rightarrow> if t = 0 then now else t)"

text \<open>The three filters of the loop body: \<open>True\<close> when no \<^verbatim>\<open>continue\<close> is taken.\<close>

definition passesFilters :: "EntityQueryOptions \<Rightarrow> int \<Rightarrow> EntityPage \<Rightarrow> bool" where
  "passesFilters options now entity =
     ((falsy (qo_factType options)
        \<or> list_ex (\<lambda>f. f_type f = the (qo_factType options)) (ep_facts entity))
      \<and> ((qo_since options = None \<and> qo_until options = None)
          \<or> \<not> (\<not> list_ex (\<lambda>f. factTime f \<ge> sinceTs options \<and> factTime f \<le> untilTs options now)
                           (ep_facts entity)
                 \<and> ep_lastUpdated entity < sinceTs options))
      \<and> (falsy (qo_relationType options)
          \<or> list_ex (\<lambda>r. rel_relation r = the (qo_relationType options)) (ep_relationships entity)))"

text \<open>\<^verbatim>\<open>options.limit && results.length >= options.limit\<close>\<close>

definition limitReached :: "EntityQueryOptions \<Rightarrow> EntityPage list \<Rightarrow> bool" where
  "limitReached options results =
     (case qo_limit options of None \<Rightarrow> False | Some n \<Rightarrow> n \<noteq> 0 \<and> length results \<ge> n)"

fun queryLoop ::
  "Host \<Rightarrow> int \<Rightarrow> EntityQueryOptions \<Rightarrow> EntityStore \<Rightarrow> EntitySummary list \<Rightarrow> EntityPage list
     \<Rightarrow> EntityPage list" where
  "queryLoop host now options st [] results = results"
| "queryLoop host now options st (summary # rest) results =
     (case fst (getEntity host now (es_name summary) st) of
        None \<Rightarrow> queryLoop host now options st rest results
      | Some entity \<Rightarrow>
          if \<not> passesFilters options now entity then queryLoop host now options st rest results
          else if limitReached options (results @ [entity]) then results @ [entity]
          else queryLoop host now options st rest (results @ [entity]))"

definition queryEntities ::
  "Host \<Rightarrow> int \<Rightarrow> EntityQueryOptions \<Rightarrow> EntityStore \<Rightarrow> EntityPage list \<times> EntityStore" where
  "queryEntities host now options st =
     (case listEntities host now st of
        (allEntities, st1) \<Rightarrow> (queryLoop host now options st1 allEntities [], st1))"

text \<open>
  The stored records as \<^verbatim>\<open>queryEntities\<close> sees them: what \<^verbatim>\<open>getEntity\<close> returns for each
  name of the listing, in the order of the listing.
\<close>

definition storedEntities :: "Host \<Rightarrow> int \<Rightarrow> EntityStore \<Rightarrow> EntityPage list" where
  "storedEntities host now st =
     List.map_filter (\<lambda>summary. fst (getEntity host now (es_name summary) (ensureEntityDirs st)))
       (fst (listEntities host now st))"

text \<open>
  The specification's wording of the query: a record matches when some fact has the
  wanted type, and some fact's time lies in \<open>[since, until]\<close> or else the record's
  \<open>lastUpdated\<close> lies in \<open>[since, until]\<close>, and some relationship has the wanted kind;
  the limit cuts the list of matches. An absent bound does not restrict.
\<close>

definition inRange :: "EntityQueryOptions \<Rightarrow> int \<Rightarrow> bool" where
  "inRange options t =
     ((case qo_since options of None \<Rightarrow> True | Some s \<Rightarrow> s \<le> t)
      \<and> (case qo_until options of None \<Rightarrow> True | Some u \<Rightarrow> t \<le> u))"

definition spec_matches :: "EntityQueryOptions \<Rightarrow> EntityPage \<Rightarrow> bool" where
  "spec_matches options entity =
     ((case qo_factType options of
         None \<Rightarrow> True
       | Some t \<Rightarrow> list_ex (\<lambda>f. f_type f = t) (ep_facts entity))
      \<and> ((qo_since options = None \<and> qo_until options = None)
          \<or> list_ex (\<lambda>f. inRange options (factTime f)) (ep_facts entity)
          \<or> inRange options (ep_lastUpdated entity))
      \<and> (case qo_relationType options of
            None \<Rightarrow> True
          | Some k \<Rightarrow> list_ex (\<lambda>r. rel_relation r = k) (ep_relationships entity)))"

definition spec_queryEntities :: "EntityQueryOptions \<Rightarrow> EntityPage list \<Rightarrow> EntityPage list" where
  "spec_queryEntities options stored =
     (case qo_limit options of
        None \<Rightarrow> filter (spec_matches options) stored
      | Some n \<Rightarrow> take n (filter (spec_matches options) stored))"

text \<open>The store after creating the entity Bob at time 1000, for worked examples.\<close>

definition example_store :: EntityStore where
  "example_store =
     snd (createEntity example_host 1000 ''Bob''
            \<lparr> co_displayName = None, co_type = Some ''person'', co_description = None \<rparr>
            \<lparr> dirsExist = False, files = [] \<rparr>)"

section \<open>Query expansion from results (query-expansion.ts)\<close>

text \<open>
  Modelled from the spec: the type \<^verbatim>\<open>MemorySearchResult\<close> of manager.js is not among the
  sources. The base search returns \<^verbatim>\<open>{locator, startLine?, endLine?, score, snippet, source?}\<close>,
  and the code reads the locator as \<^verbatim>\<open>path\<close>.
\<close>

record MemorySearchResult =
  sr_path :: string
  sr_startLine :: "int option"
  sr_endLine :: "int option"
  sr_score :: real
  sr_snippet :: string
  sr_source :: "string option"

record ExpandedQuery =
  eq_original :: string
  eq_expandedTerms :: "string list"
  eq_expanded :: string
  eq_confidence :: real

definition stopWords :: "string list" where
  "stopWords =
     [''the'', ''a'', ''an'', ''and'', ''or'', ''but'', ''in'', ''on'', ''at'', ''to'', ''for'', ''of'',
      ''with'', ''by'', ''is'', ''are'', ''was'', ''were'', ''be'', ''been'', ''have'', ''has'', ''had'',
      ''do'', ''does'', ''did'', ''will'', ''would'', ''should'', ''could'', ''may'', ''might'', ''can'',
      ''this'', ''that'', ''these'', ''those'']"

text \<open>\<^verbatim>\<open>termFreq.set(cleaned, (termFreq.get(cleaned) || 0) + score)\<close> on a map that keeps the order of insertion.\<close>

fun addTermScore :: "string \<Rightarrow> real \<Rightarrow> (string \<times> real) list \<Rightarrow> (string \<times> real) list" where
  "addTermScore term score [] = [(term, 0 + score)]"
| "addTermScore term score ((t, v) # rest) =
     (if t = term then (t, v + score) # rest else (t, v) # addTermScore term score rest)"

text \<open>\<^verbatim>\<open>word.replace(/[^a-z0-9]/g, "")\<close>\<close>

definition cleanWord :: "string \<Rightarrow> string" where
  "cleanWord word = filter (\<lambda>c. isLower c \<or> isDigit c) word"

text \<open>The inner loop over the words of one snippet.\<close>

fun countWords :: "real \<Rightarrow> string list \<Rightarrow> (string \<times> real) list \<Rightarrow> (string \<times> real) list" where
  "countWords score [] termFreq = termFreq"
| "countWords score (word # rest) termFreq =
     (let cleaned = cleanWord word
      in countWords score rest
           (if length cleaned > 2 then addTermScore cleaned score termFreq else termFreq))"

text \<open>The loop over the top five results.\<close>

fun countTerms :: "MemorySearchResult list \<Rightarrow> (string \<times> real) list \<Rightarrow> (string \<times> real) list" where
  "countTerms [] termFreq = termFreq"
| "countTerms (result # rest) termFreq =
     countTerms rest
       (countWords (sr_score result)
          (filter (\<lambda>w. length w > 3 \<and> w \<notin> set stopWords)
                  (split_whitespace (toLowerCase (sr_snippet result))))
          termFreq)"

text \<open>\<^verbatim>\<open>terms.join(" ")\<close>\<close>

fun joinSpace :: "string list \<Rightarrow> string" where
  "joinSpace [] = []"
| "joinSpace [t] = t"
| "joinSpace (t # u # rest) = t @ '' '' @ joinSpace (u # rest)"

text \<open>
  \<^verbatim>\<open>expandQueryFromResults\<close> for a non-empty result list, the only way the multi-hop loop
  calls it (its call is guarded by \<^verbatim>\<open>results.length > 0\<close>); the branch for an empty
  list, which hands over to the synonym table of \<^verbatim>\<open>expandQuery\<close>, is not modelled.
\<close>

definition expandQueryFromResults :: "string \<Rightarrow> MemorySearchResult list \<Rightarrow> nat \<Rightarrow> ExpandedQuery" where
  "expandQueryFromResults query results maxTerms =
     (let termFreq = countTerms (take 5 results) [];
          originalTerms = split_whitespace (toLowerCase query);
          sortedTerms = take maxTerms
                          (filter (\<lambda>term. term \<notin> set originalTerms)
                             (map fst (sort_key (\<lambda>entry. - snd entry) termFreq)))
      in \<lparr> eq_original = query,
           eq_expandedTerms = sortedTerms,
           eq_expanded = query @ '' '' @ joinSpace sortedTerms,
           eq_confidence = 0.6 \<rparr>)"

section \<open>Multi-hop retrieval (multi-hop.ts)\<close>

text \<open>
  The options. \<^verbatim>\<open>maxHops\<close> and \<^verbatim>\<open>resultsPerHop\<close> are counts of hops and of results:
  natural numbers. A fraction or a negative number, which no caller passes, is outside
  the model.
\<close>

record MultiHopOptions =
  mo_maxHops :: "nat option"
  mo_minImprovement :: "real option"
  mo_resultsPerHop :: "nat option"

text \<open>A search result with the hop and the query that found it (\<^verbatim>\<open>{...result, hop, query}\<close>).\<close>

record MultiHopResult =
  mh_result :: MemorySearchResult
  mh_hop :: nat
  mh_query :: string

text \<open>The key \<^verbatim>\<open>`${result.path}:${result.startLine}:${result.endLine}`\<close>.\<close>

definition showLine :: "int option \<Rightarrow> string" where
  "showLine l = (case l of None \<Rightarrow> ''undefined'' | Some n \<Rightarrow> show_int n)"

definition resultKey :: "MemorySearchResult \<Rightarrow> string" where
  "resultKey r = sr_path r @ '':'' @ showLine (sr_startLine r) @ '':'' @ showLine (sr_endLine r)"

text \<open>
  One result merged into \<^verbatim>\<open>allResults\<close>, a map that keeps the order of insertion: a new
  key is appended, a known key gets the new result only when its score is higher.
\<close>

fun mergeResult ::
  "nat \<Rightarrow> string \<Rightarrow> MemorySearchResult \<Rightarrow> (string \<times> MultiHopResult) list \<Rightarrow> (string \<times> MultiHopResult) list" where
  "mergeResult hop query r [] = [(resultKey r, \<lparr> mh_result = r, mh_hop = hop, mh_query = query \<rparr>)]"
| "mergeResult hop query r ((k, existing) # rest) =
     (if k = resultKey r
      then (if sr_score r > sr_score (mh_result existing)
            then (k, \<lparr> mh_result = r, mh_hop = hop, mh_query = query \<rparr>) # rest
            else (k, existing) # rest)
      else (k, existing) # mergeResult hop query r rest)"

fun mergeResults ::
  "nat \<Rightarrow> string \<Rightarrow> MemorySearchResult list \<Rightarrow> (string \<times> MultiHopResult) list \<Rightarrow> (string \<times> MultiHopResult) list" where
  "mergeResults hop query [] allResults = allResults"
| "mergeResults hop query (r # rest) allResults =
     mergeResults hop query rest (mergeResult hop query r allResults)"

text \<open>
  \<^verbatim>\<open>Math.max(...scores)\<close>. The loop takes it of a non-empty map only; of no scores it is
  \<open>-\<infinity>\<close>, which the model does not have and replaces by \<open>0\<close>.
\<close>

fun maxScore :: "real list \<Rightarrow> real" where
  "maxScore [] = 0"
| "maxScore (x # xs) = fold max xs x"

text \<open>
  The search function is any effectful function: it takes and returns a state of its
  own and may fail. The loop returns what it accumulated (or the failure of the search,
  which it lets through), the state of the search, and the calls it made, each with the
  query and what came back.
\<close>

type_synonym ('s, 'e) searchFn = "'s \<Rightarrow> string \<Rightarrow> nat \<Rightarrow> ('e + MemorySearchResult list) \<times> 's"

type_synonym 'e searchCall = "string \<times> ('e + MemorySearchResult list)"

definition scoresOf :: "(string \<times> MultiHopResult) list \<Rightarrow> real list" where
  "scoresOf allResults = map (\<lambda>entry. sr_score (mh_result (snd entry))) allResults"

function multiHopLoop ::
  "('s, 'e) searchFn \<Rightarrow> nat \<Rightarrow> real \<Rightarrow> nat \<Rightarrow> nat \<Rightarrow> (string \<times> MultiHopResult) list \<Rightarrow> string \<Rightarrow> real \<Rightarrow> 's
     \<Rightarrow> ('e + (string \<times> MultiHopResult) list) \<times> 's \<times> 'e searchCall list" where
  "multiHopLoop searchFn maxHops minImprovement resultsPerHop hop allResults currentQuery previousBestScore s =
     (if hop < maxHops
      then
        (case searchFn s currentQuery (resultsPerHop * 2) of
           (Inl e, s1) \<Rightarrow> (Inl e, s1, [(currentQuery, Inl e)])
         | (Inr results, s1) \<Rightarrow>
             if length results = 0 then (Inr allResults, s1, [(currentQuery, Inr results)])
             else
               (let merged = mergeResults hop currentQuery results allResults;
                    bestScore = maxScore (scoresOf merged);
                    improvement = bestScore - previousBestScore
                in if improvement < minImprovement \<and> hop > 0
                   then (Inr merged, s1, [(currentQuery, Inr results)])
                   else if hop < maxHops - 1 \<and> length results > 0
                   then
                     (let expanded = expandQueryFromResults currentQuery results 2
                      in if length (eq_expandedTerms expanded) > 0
                         then (case multiHopLoop searchFn maxHops minImprovement resultsPerHop (hop + 1)
                                      merged (eq_expanded expanded) bestScore s1 of
                                 (outcome, s2, calls) \<Rightarrow> (outcome, s2, (currentQuery, Inr results) # calls))
                         else (Inr merged, s1, [(currentQuery, Inr results)]))
                   else
                     (case multiHopLoop searchFn maxHops minImprovement resultsPerHop (hop + 1)
                             merged currentQuery bestScore s1 of
                        (outcome, s2, calls) \<Rightarrow> (outcome, s2, (currentQuery, Inr results) # calls))))
      else (Inr allResults, s, []))"
  by pat_completeness auto
termination
  by (relation "measure (\<lambda>(searchFn, maxHops, minImprovement, resultsPerHop, hop, rest). maxHops - hop)") auto

declare multiHopLoop.simps [simp del]

text \<open>The defaults \<^verbatim>\<open>options.maxHops ?? 2\<close>, \<^verbatim>\<open>options.minImprovement ?? 0.05\<close>, \<^verbatim>\<open>options.resultsPerHop ?? 10\<close>.\<close>

definition maxHopsOf :: "MultiHopOptions \<Rightarrow> nat" where
  "maxHopsOf options = (case mo_maxHops options of None \<Rightarrow> 2 | Some n \<Rightarrow> n)"

definition minImprovementOf :: "MultiHopOptions \<Rightarrow> real" where
  "minImprovementOf options = (case mo_minImprovement options of None \<Rightarrow> 0.05 | Some x \<Rightarrow> x)"

definition resultsPerHopOf :: "MultiHopOptions \<Rightarrow> nat" where
  "resultsPerHopOf options = (case mo_resultsPerHop options of None \<Rightarrow> 10 | Some n \<Rightarrow> n)"

text \<open>\<^verbatim>\<open>Array.from(allResults.values()).sort((a, b) => b.score - a.score)\<close>\<close>

definition sortedByScore :: "(string \<times> MultiHopResult) list \<Rightarrow> MultiHopResult list" where
  "sortedByScore allResults = sort_key (\<lambda>r. - sr_score (mh_result r)) (map snd allResults)"

text \<open>
  \<^verbatim>\<open>multiHopRetrieval\<close>: the loop from hop 0 with an empty map, and the accumulated
  results sorted by descending score and cut to \<^verbatim>\<open>resultsPerHop * maxHops\<close>.
\<close>

definition multiHopRetrieval ::
  "string \<Rightarrow> ('s, 'e) searchFn \<Rightarrow> MultiHopOptions \<Rightarrow> 's
     \<Rightarrow> ('e + MultiHopResult list) \<times> 's \<times> 'e searchCall list" where
  "multiHopRetrieval query searchFn options s =
     (case multiHopLoop searchFn (maxHopsOf options) (minImprovementOf options)
             (resultsPerHopOf options) 0 [] query 0 s of
        (Inl e, s1, calls) \<Rightarrow> (Inl e, s1, calls)
      | (Inr allResults, s1, calls) \<Rightarrow>
          (Inr (take (resultsPerHopOf options * maxHopsOf options) (sortedByScore allResults)),
           s1, calls))"

text \<open>A search that always returns the same two short results, for worked examples.\<close>

definition example_results :: "MemorySearchResult list" where
  "example_results =
     [\<lparr> sr_path = ''memory/a.md'', sr_startLine = Some 1, sr_endLine = Some 2, sr_score = 0.9,
        sr_snippet = ''foo'', sr_source = None \<rparr>,
      \<lparr> sr_path = ''memory/b.md'', sr_startLine = Some 3, sr_endLine = Some 4, sr_score = 0.8,
        sr_snippet = ''bar'', sr_source = None \<rparr>]"

definition example_search :: "(unit, unit) searchFn" where
  "example_search s q limit = (Inr example_results, s)"

text \<open>
  The shape of the accumulator: every entry sits under the key of its own result, and
  no key occurs twice. A result is covered by the accumulator when its key is present
  with a score at least as high.
\<close>

definition wellKeyed :: "(string \<times> MultiHopResult) list \<Rightarrow> bool" where
  "wellKeyed allResults =
     (distinct (map fst allResults)
      \<and> list_all (\<lambda>entry. fst entry = resultKey (mh_result (snd entry))) allResults)"

definition covers :: "(string \<times> MultiHopResult) list \<Rightarrow> MemorySearchResult \<Rightarrow> bool" where
  "covers allResults r =
     list_ex (\<lambda>entry. fst entry = resultKey r \<and> sr_score r \<le> sr_score (mh_result (snd entry))) allResults"

section \<open>Capture engine (capture-engine.ts)\<close>








































definition successes :: "(error + unit) list \<Rightarrow> nat" where
  "successes outcomes = length (filter (\<lambda>outcome. \<not> isl outcome) outcomes)"

definition failures :: "(error + unit) list \<Rightarrow> nat" where
  "failures outcomes = length (filter isl outcomes)"








section \<open>Evaluating the decimal rendering\<close>

lemma show_nat_small: "n < 10 \<Longrightarrow> show_nat n = [digit_char n]"
  by (simp add: show_nat.simps)

lemma show_nat_large: "10 \<le> n \<Longrightarrow> show_nat n = show_nat (n div 10) @ [digit_char (n mod 10)]"
  by (simp add: show_nat.simps)

lemmas show_nat_eval = show_nat_small show_nat_large digit_char_def

lemma digit_char_code: "d < 10 \<Longrightarrow> (of_char (digit_char d) :: nat) = 48 + d"
proof -
  assume "d < 10"
  then have "d = 0 \<or> d = 1 \<or> d = 2 \<or> d = 3 \<or> d = 4 \<or> d = 5 \<or> d = 6 \<or> d = 7 \<or> d = 8 \<or> d = 9"
    by arith
  then show ?thesis by (elim disjE) (simp_all add: digit_char_def)
qed

lemma isDigit_digit_char: "d < 10 \<Longrightarrow> isDigit (digit_char d)"
  by (simp add: isDigit_def digit_char_code)

lemma show_nat_digits: "list_all isDigit (show_nat n)"
proof (induction n rule: show_nat.induct)
  case (1 n)
  show ?case
  proof (cases "n < 10")
    case True
    then show ?thesis by (simp add: show_nat_small isDigit_digit_char)
  next
    case False
    then show ?thesis using 1 by (simp add: show_nat_large isDigit_digit_char)
  qed
qed

lemma show_nat_nonempty: "show_nat n \<noteq> []"
  by (cases "n < 10") (simp_all add: show_nat_small show_nat_large)

section \<open>Writing a page succeeds for a time value\<close>

lemma toISOString_valid:
  assumes "\<bar>t\<bar> \<le> 8640000000000000"
  shows "\<exists>s. toISOString t = Inr s"
proof -
  have "\<not> \<bar>t\<bar> > 8640000000000000" using assms by simp
  then show ?thesis
    unfolding toISOString_def Let_def by (simp only: if_False) (rule exI, rule refl)
qed

lemma generateEntityPageMarkdown_valid:
  assumes "\<bar>ep_lastUpdated entity\<bar> \<le> 8640000000000000"
  shows "\<exists>content. generateEntityPageMarkdown host entity = Inr content"
proof -
  obtain s where "toISOString (ep_lastUpdated entity) = Inr s"
    using toISOString_valid [OF assms] ..
  then show ?thesis by (simp add: generateEntityPageMarkdown_def)
qed

section \<open>Confidence updates\<close>

lemma calculateConfidenceUpdate_supporting:
  "cu_confidence (calculateConfidenceUpdate c Supporting s) =
     max 0 (min 1 (c + max 0 (min 1 s) * (1 - c) * 0.2))"
  by (simp add: calculateConfidenceUpdate_def Let_def)

lemma calculateConfidenceUpdate_contradicting:
  "cu_confidence (calculateConfidenceUpdate c Contradicting s) =
     max 0 (min 1 (c - max 0 (min 1 s) * c * 0.3))"
  by (simp add: calculateConfidenceUpdate_def Let_def)

lemma calculateConfidenceUpdate_range:
  "0 \<le> cu_confidence (calculateConfidenceUpdate c t s) \<and>
   cu_confidence (calculateConfidenceUpdate c t s) \<le> 1"
  by (simp add: calculateConfidenceUpdate_def Let_def)

lemma supporting_delta_bounds:
  fixes c s :: real
  assumes "0 < c" "c < 1" "0 \<le> s" "s \<le> 1"
  shows "0 \<le> s * (1 - c) * 0.2" and "c + s * (1 - c) * 0.2 < 1"
proof -
  define d where "d = s * (1 - c)"
  have p: "0 \<le> d" using assms by (simp add: d_def)
  have "s * (1 - c) \<le> 1 * (1 - c)"
    using assms by (intro mult_right_mono) simp_all
  then have q: "d \<le> 1 - c" by (simp add: d_def)
  have "0 \<le> d * 0.2" and "c + d * 0.2 < 1" using p q assms by simp_all
  then show "0 \<le> s * (1 - c) * 0.2" and "c + s * (1 - c) * 0.2 < 1"
    by (simp_all add: d_def)
qed

lemma contradicting_delta_bounds:
  fixes c s :: real
  assumes "0 < c" "c < 1" "0 \<le> s" "s \<le> 1"
  shows "0 \<le> s * c * 0.3" and "0 < c - s * c * 0.3"
proof -
  define d where "d = s * c"
  have p: "0 \<le> d" using assms by (simp add: d_def)
  have "s * c \<le> 1 * c"
    using assms by (intro mult_right_mono) simp_all
  then have q: "d \<le> c" by (simp add: d_def)
  have "0 \<le> d * 0.3" and "0 < c - d * 0.3" using p q assms by simp_all
  then show "0 \<le> s * c * 0.3" and "0 < c - s * c * 0.3"
    by (simp_all add: d_def)
qed


text \<open>
  C2 (as the specification states it, refuted): one supporting update is claimed to
  raise the confidence strictly for every strength in \<open>[0,1]\<close>. At strength \<open>0\<close> the
  delta is \<open>0\<close> and the confidence stays where it was.
\<close>

theorem calculateConfidenceUpdate_zero_strength_counterexample:
  "\<not> (cu_confidence (calculateConfidenceUpdate (1 / 2) Supporting 0) > 1 / 2)"
  by (simp add: calculateConfidenceUpdate_def Let_def)

lemma calculateConfidenceUpdate_facts:
  assumes "0 < c" "c < 1" "0 \<le> s" "s \<le> 1"
  shows "cu_confidence (calculateConfidenceUpdate c Supporting s) = c + s * (1 - c) * 0.2"
    and "cu_confidence (calculateConfidenceUpdate c Contradicting s) = c - s * c * 0.3"
    and "cu_confidence (calculateConfidenceUpdate c Supporting s) = max 0 (min 1 (c + s * (1 - c) * 0.2))"
    and "cu_confidence (calculateConfidenceUpdate c Contradicting s) = max 0 (min 1 (c - s * c * 0.3))"
    and "0 \<le> cu_confidence (calculateConfidenceUpdate c t s)"
    and "cu_confidence (calculateConfidenceUpdate c t s) \<le> 1"
    and "c \<le> cu_confidence (calculateConfidenceUpdate c Supporting s)"
    and "cu_confidence (calculateConfidenceUpdate c Contradicting s) \<le> c"
proof -
  have s_clamp: "max 0 (min 1 s) = s" using assms by simp
  have up: "0 \<le> s * (1 - c) * 0.2" "c + s * (1 - c) * 0.2 < 1"
    using supporting_delta_bounds [OF assms] by simp_all
  have down: "0 \<le> s * c * 0.3" "0 < c - s * c * 0.3"
    using contradicting_delta_bounds [OF assms] by simp_all
  have "0 \<le> c + s * (1 - c) * 0.2" using up(1) assms by linarith
  then have clamp_up: "max 0 (min 1 (c + s * (1 - c) * 0.2)) = c + s * (1 - c) * 0.2"
    using up(2) by (simp add: min_def max_def)
  have "c - s * c * 0.3 \<le> 1" using down(1) assms by linarith
  then have clamp_down: "max 0 (min 1 (c - s * c * 0.3)) = c - s * c * 0.3"
    using down(2) by (simp add: min_def max_def)
  show sup: "cu_confidence (calculateConfidenceUpdate c Supporting s) = c + s * (1 - c) * 0.2"
    unfolding calculateConfidenceUpdate_supporting s_clamp by (rule clamp_up)
  show con: "cu_confidence (calculateConfidenceUpdate c Contradicting s) = c - s * c * 0.3"
    unfolding calculateConfidenceUpdate_contradicting s_clamp by (rule clamp_down)
  show "cu_confidence (calculateConfidenceUpdate c Supporting s) = max 0 (min 1 (c + s * (1 - c) * 0.2))"
    unfolding calculateConfidenceUpdate_supporting s_clamp ..
  show "cu_confidence (calculateConfidenceUpdate c Contradicting s) = max 0 (min 1 (c - s * c * 0.3))"
    unfolding calculateConfidenceUpdate_contradicting s_clamp ..
  show "0 \<le> cu_confidence (calculateConfidenceUpdate c t s)"
    and "cu_confidence (calculateConfidenceUpdate c t s) \<le> 1"
    using calculateConfidenceUpdate_range [of c t s] by simp_all
  show "c \<le> cu_confidence (calculateConfidenceUpdate c Supporting s)"
    unfolding sup using up by simp
  show "cu_confidence (calculateConfidenceUpdate c Contradicting s) \<le> c"
    unfolding con using down by simp
qed

text \<open>
  C2 (amended): for a confidence \<open>c\<close> in \<open>(0,1)\<close> and a strength \<open>s\<close> in \<open>[0,1]\<close> the
  update returns \<open>c + s * (1 - c) * 0.2\<close> for supporting and \<open>c - s * c * 0.3\<close> for
  contradicting evidence, which is also the clamped value; the result lies in \<open>[0,1]\<close>;
  a supporting update never lowers and a contradicting update never raises the
  confidence, and at strength \<open>0\<close> the confidence is what it was. Whether a change at
  a strength above \<open>0\<close> is strict is not stated: in the source it depends on the
  rounding of the sum, which the reals do not have.
\<close>

theorem calculateConfidenceUpdate_monotone:
  assumes "0 < c" "c < 1" "0 \<le> s" "s \<le> 1"
  shows "cu_confidence (calculateConfidenceUpdate c Supporting s) = c + s * (1 - c) * 0.2
       \<and> cu_confidence (calculateConfidenceUpdate c Contradicting s) = c - s * c * 0.3
       \<and> cu_confidence (calculateConfidenceUpdate c Supporting s) = max 0 (min 1 (c + s * (1 - c) * 0.2))
       \<and> cu_confidence (calculateConfidenceUpdate c Contradicting s) = max 0 (min 1 (c - s * c * 0.3))
       \<and> 0 \<le> cu_confidence (calculateConfidenceUpdate c t s)
       \<and> cu_confidence (calculateConfidenceUpdate c t s) \<le> 1
       \<and> c \<le> cu_confidence (calculateConfidenceUpdate c Supporting s)
       \<and> cu_confidence (calculateConfidenceUpdate c Contradicting s) \<le> c
       \<and> cu_confidence (calculateConfidenceUpdate c t 0) = c"
proof -
  have zero: "cu_confidence (calculateConfidenceUpdate c t 0) = c"
    using assms(1,2) by (cases t) (simp_all add: calculateConfidenceUpdate_def Let_def)
  with calculateConfidenceUpdate_facts [OF assms] show ?thesis by blast
qed

theorem calculateConfidenceUpdate_monotone_witness:
  "cu_confidence (calculateConfidenceUpdate (1 / 2) Supporting 1) = 3 / 5 \<and>
   cu_confidence (calculateConfidenceUpdate (1 / 2) Contradicting 1) = 7 / 20 \<and>
   1 / 2 \<le> cu_confidence (calculateConfidenceUpdate (1 / 2) Supporting 1) \<and>
   cu_confidence (calculateConfidenceUpdate (1 / 2) Contradicting 1) \<le> 1 / 2 \<and>
   cu_confidence (calculateConfidenceUpdate (1 / 2) Contradicting 0) = 1 / 2"
  using calculateConfidenceUpdate_monotone [of "1 / 2" 1 Contradicting]
  by simp

section \<open>Aggregation of evidence\<close>

lemma applyEvidence_foldl: "applyEvidence c es = foldl update_step c es"
  by (induction es arbitrary: c) (simp_all add: update_step_def)

lemma sortedEvidence_descending:
  "sorted_wrt (\<lambda>a b. ev_strength b \<le> ev_strength a) (sortedEvidence es)"
proof -
  have "sorted (map (\<lambda>e. - ev_strength e) (sortedEvidence es))"
    by (simp add: sortedEvidence_def)
  then show ?thesis
    by (simp add: sorted_map sorted_wrt_iff_nth_less)
qed

lemma strongest_first_example:
  "fold_updates (1 / 2)
     (sortedEvidence
        [\<lparr> ev_factId = ''e1'', ev_type = Contradicting, ev_strength = 1 / 2, ev_addedAt = 0 \<rparr>,
         \<lparr> ev_factId = ''e2'', ev_type = Supporting, ev_strength = 1, ev_addedAt = 0 \<rparr>]) = 51 / 100"
  by (simp add: fold_updates_def sortedEvidence_def update_step_def calculateConfidenceUpdate_def Let_def)

lemma weakest_first_example:
  "fold_updates (1 / 2)
     (rev (sortedEvidence
        [\<lparr> ev_factId = ''e1'', ev_type = Contradicting, ev_strength = 1 / 2, ev_addedAt = 0 \<rparr>,
         \<lparr> ev_factId = ''e2'', ev_type = Supporting, ev_strength = 1, ev_addedAt = 0 \<rparr>])) = 27 / 50"
  by (simp add: fold_updates_def sortedEvidence_def update_step_def calculateConfidenceUpdate_def Let_def)

text \<open>
  C9: the aggregate is the left fold of the single update over the evidence in the
  order of the stable sort by descending strength (a permutation of the evidence,
  strongest first), and the order matters: on some evidence list the strongest-first
  fold and the weakest-first fold (the reversed order) differ.
\<close>

theorem calculateConfidenceFromEvidence_strongest_first:
  "calculateConfidenceFromEvidence c es = fold_updates c (sortedEvidence es)
   \<and> sorted_wrt (\<lambda>a b. ev_strength b \<le> ev_strength a) (sortedEvidence es)
   \<and> mset (sortedEvidence es) = mset es
   \<and> (\<exists>c' es'. fold_updates c' (sortedEvidence es') \<noteq> fold_updates c' (rev (sortedEvidence es')))"
proof -
  have "calculateConfidenceFromEvidence c es = fold_updates c (sortedEvidence es)"
    by (simp add: calculateConfidenceFromEvidence_def fold_updates_def applyEvidence_foldl)
  moreover have "mset (sortedEvidence es) = mset es"
    by (simp add: sortedEvidence_def)
  moreover have "\<exists>c' es'. fold_updates c' (sortedEvidence es') \<noteq> fold_updates c' (rev (sortedEvidence es'))"
  proof (intro exI)
    show "fold_updates (1 / 2)
            (sortedEvidence
               [\<lparr> ev_factId = ''e1'', ev_type = Contradicting, ev_strength = 1 / 2, ev_addedAt = 0 \<rparr>,
                \<lparr> ev_factId = ''e2'', ev_type = Supporting, ev_strength = 1, ev_addedAt = 0 \<rparr>])
          \<noteq> fold_updates (1 / 2)
            (rev (sortedEvidence
               [\<lparr> ev_factId = ''e1'', ev_type = Contradicting, ev_strength = 1 / 2, ev_addedAt = 0 \<rparr>,
                \<lparr> ev_factId = ''e2'', ev_type = Supporting, ev_strength = 1, ev_addedAt = 0 \<rparr>]))"
      unfolding strongest_first_example weakest_first_example by simp
  qed
  ultimately show ?thesis
    using sortedEvidence_descending by blast
qed

section \<open>Importance score\<close>







section \<open>Conflict detection\<close>

lemma set_uniq: "set (uniq xs) = set xs"
  by (simp add: uniq_def)

lemma distinct_uniq: "distinct (uniq xs)"
  by (simp add: uniq_def)

lemma length_uniq: "length (uniq xs) = card (set xs)"
  using distinct_card [OF distinct_uniq, of xs] by (simp add: set_uniq)

lemma similarity_sym: "similarity x y = similarity y x"
proof -
  have ov: "length (filter (\<lambda>w. w \<in> set (longWords q)) (longWords p))
            = card (set (longWords p) \<inter> set (longWords q))" for p q
  proof -
    have "distinct (longWords p)" by (simp add: longWords_def distinct_uniq)
    then have "length (filter (\<lambda>w. w \<in> set (longWords q)) (longWords p))
               = card ({w. w \<in> set (longWords q)} \<inter> set (longWords p))"
      by (rule distinct_length_filter)
    then show ?thesis by (simp add: Int_commute)
  qed
  show ?thesis
    by (simp add: similarity_def Let_def ov length_uniq Int_commute Un_commute)
qed

lemma sharedEntities_sym:
  "(length (sharedEntities x y) > 0) = (length (sharedEntities y x) > 0)"
  by (auto simp: sharedEntities_def filter_empty_conv)

lemma areContradictory_sym: "areContradictory x y = areContradictory y x"
  using sharedEntities_sym [of x y]
        similarity_sym [of "toLowerCase (f_content x)" "toLowerCase (f_content y)"]
  by (auto simp: areContradictory_def Let_def)

lemma areInconsistent_sym: "areInconsistent x y = areInconsistent y x"
  using sharedEntities_sym [of x y]
        similarity_sym [of "toLowerCase (f_content x)" "toLowerCase (f_content y)"]
  by (auto simp: areInconsistent_def abs_minus_commute)

lemma detectConflicts_pair:
  "detectConflicts [x, y] = sort_key (\<lambda>c. - c_severity c) (pairConflicts x y)"
  by (simp add: detectConflicts_def)

lemma sorted_pairConflicts:
  "sort_key (\<lambda>c. - c_severity c) (pairConflicts x y) = pairConflicts x y"
  by (simp add: pairConflicts_def)

lemma pairConflicts_keys:
  "map conflict_key (pairConflicts x y) = map conflict_key (pairConflicts y x)"
  using areContradictory_sym [of "os_fact x" "os_fact y"]
        areInconsistent_sym [of "os_fact x" "os_fact y"]
  by (auto simp: pairConflicts_def conflict_key_def abs_minus_commute)

lemma pairConflicts_severity:
  assumes "c \<in> set (pairConflicts x y)"
  shows "c_type c \<noteq> Overlap"
    and "c_type c = Contradiction \<Longrightarrow> c_severity c = \<bar>os_confidence x - os_confidence y\<bar>"
    and "c_type c = Inconsistency \<Longrightarrow> c_severity c = \<bar>os_confidence x - os_confidence y\<bar> * 0.7"
  using assms by (auto simp: pairConflicts_def split: if_splits)

lemma detectConflicts_descending:
  "sorted_wrt (\<lambda>x y. c_severity y \<le> c_severity x) (detectConflicts opinions)"
proof -
  have "sorted (map (\<lambda>c. - c_severity c) (detectConflicts opinions))"
    by (simp add: detectConflicts_def)
  then show ?thesis
    by (simp add: sorted_map sorted_wrt_iff_nth_less)
qed

text \<open>
  C7: for two opinions \<open>a\<close> and \<open>b\<close>, \<open>detectConflicts [a, b]\<close> and
  \<open>detectConflicts [b, a]\<close> list the same unordered pairs of fact ids with the same
  conflict type and severity, in the same order; a contradiction has severity
  \<open>|confidence a - confidence b|\<close> and an inconsistency that value times \<open>0.7\<close>; and the
  conflict list of any list of opinions is sorted by descending severity.
\<close>

theorem detectConflicts_symmetric:
  "map conflict_key (detectConflicts [a, b]) = map conflict_key (detectConflicts [b, a])
   \<and> (\<forall>c \<in> set (detectConflicts [a, b]).
         c_type c \<noteq> Overlap
         \<and> (c_type c = Contradiction \<longrightarrow> c_severity c = \<bar>os_confidence a - os_confidence b\<bar>)
         \<and> (c_type c = Inconsistency \<longrightarrow> c_severity c = \<bar>os_confidence a - os_confidence b\<bar> * 0.7))
   \<and> sorted_wrt (\<lambda>x y. c_severity y \<le> c_severity x) (detectConflicts opinions)"
proof (intro conjI ballI impI)
  show "map conflict_key (detectConflicts [a, b]) = map conflict_key (detectConflicts [b, a])"
    unfolding detectConflicts_pair sorted_pairConflicts by (rule pairConflicts_keys)
next
  fix c assume "c \<in> set (detectConflicts [a, b])"
  then have c: "c \<in> set (pairConflicts a b)"
    by (simp add: detectConflicts_pair)
  show "c_type c \<noteq> Overlap" using pairConflicts_severity(1) [OF c] .
  { assume "c_type c = Contradiction"
    then show "c_severity c = \<bar>os_confidence a - os_confidence b\<bar>"
      using pairConflicts_severity(2) [OF c] by simp }
  { assume "c_type c = Inconsistency"
    then show "c_severity c = \<bar>os_confidence a - os_confidence b\<bar> * 0.7"
      using pairConflicts_severity(3) [OF c] by simp }
next
  show "sorted_wrt (\<lambda>x y. c_severity y \<le> c_severity x) (detectConflicts opinions)"
    by (rule detectConflicts_descending)
qed

lemma example_conflicts:
  "map c_type (detectConflicts [example_opinion_a, example_opinion_b]) = [Contradiction, Inconsistency]"
  by (simp add: example_opinion_a_def example_opinion_b_def detectConflicts_def pairConflicts_def
        areContradictory_def areInconsistent_def sharedEntities_def similarity_def longWords_def
        toLowerCase_def lowerChar_def isUpper_def split_whitespace_def isSpace_def uniq_def
        negationWords_def startsWith_def confidenceOrZero_def Let_def)

theorem detectConflicts_symmetric_witness:
  "map conflict_key (detectConflicts [example_opinion_a, example_opinion_b])
     = map conflict_key (detectConflicts [example_opinion_b, example_opinion_a])
   \<and> map c_type (detectConflicts [example_opinion_a, example_opinion_b]) = [Contradiction, Inconsistency]
   \<and> map c_severity (detectConflicts [example_opinion_a, example_opinion_b]) = [7 / 10, 49 / 100]"
proof -
  have sev: "map c_severity (detectConflicts [example_opinion_a, example_opinion_b]) = [7 / 10, 49 / 100]"
    by (simp add: example_opinion_a_def example_opinion_b_def detectConflicts_def pairConflicts_def
        areContradictory_def areInconsistent_def sharedEntities_def similarity_def longWords_def
        toLowerCase_def lowerChar_def isUpper_def split_whitespace_def isSpace_def uniq_def
        negationWords_def startsWith_def confidenceOrZero_def Let_def)
  show ?thesis
    using detectConflicts_symmetric [of example_opinion_a example_opinion_b "[]"]
          example_conflicts sev
    by simp
qed

section \<open>Opinions manager\<close>

lemma findOpinion_None: "(findOpinion factId opinions = None) = (factId \<notin> set (map (\<lambda>opinion. f_id (os_fact opinion)) opinions))"
  by (induction opinions) auto

lemma findOpinion_Some:
  "findOpinion factId opinions = Some i \<Longrightarrow> i < length opinions \<and> f_id (os_fact (opinions ! i)) = factId"
  by (induction opinions arbitrary: i) (auto split: if_splits)

lemma loadOpinions_keeps_file: "opinionsFile (snd (loadOpinions codec now st)) = opinionsFile st"
  by (simp add: loadOpinions_def ensureDirectories_def Let_def split: file_state.splits)

text \<open>
  C10: when the opinions file can be loaded and no loaded opinion has the given fact
  id, \<open>updateConfidence\<close> returns \<open>null\<close> without an error; the opinions file is
  exactly what it was (the only effect is that the bank directory exists), so loading
  again gives the same opinions. Had the id been present, the file would have been
  rewritten.
\<close>

theorem updateConfidence_unknown_fact:
  assumes "fst (loadOpinions codec now st) = Inr opinions"
      and "factId \<notin> set (map (\<lambda>opinion. f_id (os_fact opinion)) opinions)"
  shows "fst (updateConfidence codec now factId evidence st) = Inr None
       \<and> opinionsFile (snd (updateConfidence codec now factId evidence st)) = opinionsFile st
       \<and> snd (updateConfidence codec now factId evidence st) = st \<lparr> bankDirExists := True \<rparr>
       \<and> fst (loadOpinions codec now (snd (updateConfidence codec now factId evidence st))) = Inr opinions
       \<and> (\<forall>factId'. findOpinion factId' opinions \<noteq> None \<longrightarrow>
            opinionsFile (snd (updateConfidence codec now factId' evidence st))
            = Content (generateOpinionsMarkdown codec
                (opinions[the (findOpinion factId' opinions)
                          := updateOpinionConfidence now (opinions ! the (findOpinion factId' opinions)) evidence])))"
proof -
  obtain st1 where l: "loadOpinions codec now st = (Inr opinions, st1)"
    using assms(1) by (cases "loadOpinions codec now st") auto
  have st1: "st1 = st \<lparr> bankDirExists := True \<rparr>"
    using l by (auto simp: loadOpinions_def ensureDirectories_def Let_def split: file_state.splits)
  have none: "findOpinion factId opinions = None"
    using assms(2) by (simp add: findOpinion_None)
  have u: "updateConfidence codec now factId evidence st = (Inr None, st1)"
    by (simp add: updateConfidence_def l none)
  have again: "fst (loadOpinions codec now st1) = Inr opinions"
    using assms(1) unfolding st1
    by (simp add: loadOpinions_def ensureDirectories_def Let_def split: file_state.splits)
  have found: "opinionsFile (snd (updateConfidence codec now factId' evidence st))
            = Content (generateOpinionsMarkdown codec
                (opinions[the (findOpinion factId' opinions)
                          := updateOpinionConfidence now (opinions ! the (findOpinion factId' opinions)) evidence]))"
    if "findOpinion factId' opinions \<noteq> None" for factId'
    using that by (auto simp: updateConfidence_def l saveOpinions_def ensureDirectories_def Let_def)
  show ?thesis
    using u again found by (simp add: st1)
qed

theorem updateConfidence_unknown_fact_witness:
  "fst (updateConfidence example_codec 1000 ''no-such-fact''
          \<lparr> ev_factId = ''e1'', ev_type = Supporting, ev_strength = 1, ev_addedAt = 0 \<rparr>
          \<lparr> bankDirExists = True, opinionsFile = Content ''# Opinions'' \<rparr>) = Inr None
   \<and> snd (updateConfidence example_codec 1000 ''no-such-fact''
          \<lparr> ev_factId = ''e1'', ev_type = Supporting, ev_strength = 1, ev_addedAt = 0 \<rparr>
          \<lparr> bankDirExists = True, opinionsFile = Content ''# Opinions'' \<rparr>)
     = \<lparr> bankDirExists = True, opinionsFile = Content ''# Opinions'' \<rparr>
   \<and> opinionsFile (snd (updateConfidence example_codec 1000 ''a''
          \<lparr> ev_factId = ''e1'', ev_type = Supporting, ev_strength = 1, ev_addedAt = 0 \<rparr>
          \<lparr> bankDirExists = True, opinionsFile = Content ''# Opinions'' \<rparr>))
     = Content ''ab''"
proof -
  have l: "fst (loadOpinions example_codec 1000 \<lparr> bankDirExists = True, opinionsFile = Content ''# Opinions'' \<rparr>)
           = Inr [example_opinion_a, example_opinion_b]"
    by (simp add: loadOpinions_def ensureDirectories_def example_codec_def)
  have ids: "''no-such-fact'' \<notin> set (map (\<lambda>opinion. f_id (os_fact opinion)) [example_opinion_a, example_opinion_b])"
    by (simp add: example_opinion_a_def example_opinion_b_def)
  have a: "findOpinion ''a'' [example_opinion_a, example_opinion_b] = Some 0"
    by (simp add: example_opinion_a_def)
  show ?thesis
    using updateConfidence_unknown_fact [OF l ids,
            of "\<lparr> ev_factId = ''e1'', ev_type = Supporting, ev_strength = 1, ev_addedAt = 0 \<rparr>"]
          a
    by (auto simp: example_codec_def updateOpinionConfidence_def Let_def example_opinion_a_def
          example_opinion_b_def)
qed

section \<open>Reading back a written page\<close>

subsection \<open>Lines and white space\<close>

lemma split_nl_nonempty: "split_nl s \<noteq> []"
  by (induction s) (auto split: list.splits)

lemma split_nl_line: "CHR 0x0A \<notin> set l \<Longrightarrow> split_nl (l @ CHR 0x0A # s) = l # split_nl s"
  by (induction l) (auto split: list.splits)

lemma split_nl_single: "CHR 0x0A \<notin> set l \<Longrightarrow> split_nl l = [l]"
  by (induction l) auto

lemma split_join:
  "ls \<noteq> [] \<Longrightarrow> \<forall>l \<in> set ls. CHR 0x0A \<notin> set l \<Longrightarrow> split_nl (join_nl ls) = ls"
  by (induction ls rule: join_nl.induct) (simp_all add: split_nl_single split_nl_line)

lemma singleLine_chars: "singleLine s \<Longrightarrow> CHR 0x0A \<notin> set s \<and> CHR 0x0D \<notin> set s"
  by (auto simp: singleLine_def list_ex_iff isLineTerminator_def)

lemma singleLine_append: "singleLine (a @ b) = (singleLine a \<and> singleLine b)"
  by (auto simp: singleLine_def list_ex_iff)

lemma dropWhile_stop: "\<not> P c \<Longrightarrow> dropWhile P (xs @ c # ys) = dropWhile P xs @ c # ys"
  by (induction xs) auto

lemma trimEnd_keep: "\<not> isSpace c \<Longrightarrow> trimEnd (a @ c # b) = a @ c # trimEnd b"
  by (simp add: trimEnd_def dropWhile_stop)

lemma trimEnd_id: "noTrailingSpace s \<Longrightarrow> trimEnd s = s"
proof (cases "s = []")
  case True
  then show ?thesis by (simp add: trimEnd_def)
next
  case False
  assume "noTrailingSpace s"
  with False have "\<not> isSpace (last s)" by (simp add: noTrailingSpace_def)
  moreover from False have "s = butlast s @ [last s]" by simp
  ultimately have "trimEnd s = butlast s @ last s # trimEnd []"
    using trimEnd_keep [of "last s" "butlast s" "[]"] by simp
  then show ?thesis using False by (simp add: trimEnd_def)
qed

lemma set_trimEnd: "set (trimEnd s) \<subseteq> set s"
proof -
  have "set (dropWhile isSpace (rev s)) \<subseteq> set (rev s)" by (rule set_dropWhileD [THEN subsetI])
  then show ?thesis by (simp add: trimEnd_def)
qed

lemma singleLine_trimEnd: "singleLine s \<Longrightarrow> singleLine (trimEnd s)"
  using set_trimEnd [of s] by (auto simp: singleLine_def list_ex_iff)

lemma trim_Cons: "\<not> isSpace c \<Longrightarrow> trim (c # s) = c # trimEnd s"
  using trimEnd_keep [of c "[]" s] by (simp add: trim_def trimEnd_def)

lemma trim_id: "noSurroundingSpace s \<Longrightarrow> trim s = s"
proof -
  assume ns: "noSurroundingSpace s"
  then obtain c r where s: "s = c # r" by (cases s) (simp_all add: noSurroundingSpace_def)
  with ns have c: "\<not> isSpace c" and l: "\<not> isSpace (last (c # r))"
    by (simp_all add: noSurroundingSpace_def)
  have "noTrailingSpace r"
    using l by (cases "r = []") (simp_all add: noTrailingSpace_def)
  then show ?thesis unfolding s trim_Cons [OF c] by (simp add: trimEnd_id)
qed

lemma trim_leading_space: "trim (CHR '' '' # s) = trim s"
  by (simp add: trim_def isSpace_def)

lemma startsWith_append: "startsWith s (p @ q) \<Longrightarrow> startsWith s p"
proof -
  assume "startsWith s (p @ q)"
  then have "take (length p + length q) s = p @ q" by (simp add: startsWith_def)
  then have "take (length p) (take (length p + length q) s) = p" by simp
  then show ?thesis by (simp add: startsWith_def min_def)
qed

subsection \<open>The lines of the header\<close>

lemma parseLine_blank: "parseLine filePath now i [] st = st"
  by (simp add: parseLine_def Let_def trim_def startsWith_def)

lemma parseLine_title:
  assumes "noTrailingSpace dn"
  shows "parseLine filePath now i (''# '' @ dn) st
         = st \<lparr> ps_displayName := Some dn,
                ps_name := Some (case matchFileName filePath of
                                   Some n \<Rightarrow> n
                                 | None \<Rightarrow> replaceWsRuns (toLowerCase dn)) \<rparr>"
proof -
  have t: "trim (''# '' @ dn) = CHR ''#'' # trimEnd (CHR '' '' # dn)"
    using trim_Cons [of "CHR ''#''" "CHR '' '' # dn"] by (simp add: isSpace_def)
  have "drop 2 (CHR ''#'' # trimEnd (CHR '' '' # dn)) = dn"
  proof (cases "dn = []")
    case True
    then show ?thesis by (simp add: trimEnd_def isSpace_def)
  next
    case False
    with assms have "noTrailingSpace (CHR '' '' # dn)" by (simp add: noTrailingSpace_def)
    then show ?thesis by (simp add: trimEnd_id)
  qed
  then have d: "drop 2 (trim (''# '' @ dn)) = dn" unfolding t .
  show ?thesis unfolding parseLine_def Let_def d by (simp add: startsWith_def)
qed

lemma parseLine_type:
  assumes "noSurroundingSpace ty"
  shows "parseLine filePath now i (''**Type:** '' @ ty) st = st \<lparr> ps_type := Some ty \<rparr>"
proof -
  have "noSurroundingSpace (''**Type:** '' @ ty)"
    using assms by (simp add: noSurroundingSpace_def isSpace_def)
  then have t: "trim (''**Type:** '' @ ty) = ''**Type:** '' @ ty" by (rule trim_id)
  have "trim (drop 9 (''**Type:** '' @ ty)) = ty"
    using trim_id [OF assms] by (simp add: trim_leading_space)
  then show ?thesis unfolding parseLine_def Let_def t by (simp add: startsWith_def)
qed

lemma parseLine_description:
  assumes "noSurroundingSpace d" "\<not> startsWith d ''**''" "\<not> startsWith d ''#''"
    and "ps_section st = None" "ps_description st = None"
  shows "parseLine filePath now i d st = st \<lparr> ps_description := Some d \<rparr>"
proof -
  have t: "trim d = d" using assms(1) by (rule trim_id)
  have a: "\<not> startsWith d ''# ''"
    using startsWith_append [of d "''#''" "'' ''"] assms(3) by auto
  have b: "\<not> startsWith d ''**Type:**''"
    using startsWith_append [of d "''**''" "''Type:**''"] assms(2) by auto
  have "d \<noteq> []" using assms(1) by (simp add: noSurroundingSpace_def)
  then show ?thesis unfolding parseLine_def Let_def t using a b assms(2-) by (simp add: falsy_def)
qed

lemma pad_nat_digits:
  assumes "c \<in> set (pad_nat w n)"
  shows "isDigit c"
proof -
  have "isDigit (CHR ''0'')" by (simp add: isDigit_def)
  moreover have "\<forall>c \<in> set (show_nat n). isDigit c"
    using show_nat_digits [of n] by (simp add: list_all_iff)
  ultimately show ?thesis using assms by (auto simp: pad_nat_def)
qed

lemma pad_nat_line: "CHR 0x0A \<notin> set (pad_nat w n)"
proof -
  have "\<not> isDigit (CHR 0x0A)" by (simp add: isDigit_def)
  then show ?thesis using pad_nat_digits by blast
qed

lemma iso_text_shape:
  assumes "CHR 0x0A \<notin> set y" "CHR 0x0A \<notin> set p1" "CHR 0x0A \<notin> set p2" "CHR 0x0A \<notin> set p3"
    "CHR 0x0A \<notin> set p4" "CHR 0x0A \<notin> set p5" "CHR 0x0A \<notin> set p6"
    and "s = y @ ''-'' @ p1 @ ''-'' @ p2 @ ''T'' @ p3 @ '':'' @ p4 @ '':'' @ p5 @ ''.'' @ p6 @ ''Z''"
  shows "s \<noteq> [] \<and> last s = CHR ''Z'' \<and> CHR 0x0A \<notin> set s"
  using assms by simp

lemma toISOString_shape:
  assumes "toISOString t = Inr s"
  shows "s \<noteq> [] \<and> last s = CHR ''Z'' \<and> CHR 0x0A \<notin> set s"
proof -
  let ?r = "t mod 86400000" and ?ymd = "civil_from_days (t div 86400000)"
  let ?year = "if 0 \<le> fst ?ymd \<and> fst ?ymd \<le> 9999 then pad_nat 4 (nat (fst ?ymd))
               else (if fst ?ymd < 0 then ''-'' else ''+'') @ pad_nat 6 (nat \<bar>fst ?ymd\<bar>)"
  have valid: "\<not> \<bar>t\<bar> > 8640000000000000"
    using assms by (auto simp: toISOString_def split: if_splits)
  then have "toISOString t
      = Inr (?year @ ''-'' @ pad_nat 2 (nat (fst (snd ?ymd))) @ ''-'' @ pad_nat 2 (nat (snd (snd ?ymd)))
             @ ''T'' @ pad_nat 2 (nat (?r div 3600000))
             @ '':'' @ pad_nat 2 (nat (?r div 60000 mod 60))
             @ '':'' @ pad_nat 2 (nat (?r div 1000 mod 60))
             @ ''.'' @ pad_nat 3 (nat (?r mod 1000)) @ ''Z'')"
    unfolding toISOString_def Let_def by (simp only: if_False)
  with assms have s: "s = ?year @ ''-'' @ pad_nat 2 (nat (fst (snd ?ymd))) @ ''-''
             @ pad_nat 2 (nat (snd (snd ?ymd)))
             @ ''T'' @ pad_nat 2 (nat (?r div 3600000))
             @ '':'' @ pad_nat 2 (nat (?r div 60000 mod 60))
             @ '':'' @ pad_nat 2 (nat (?r div 1000 mod 60))
             @ ''.'' @ pad_nat 3 (nat (?r mod 1000)) @ ''Z''"
    by (simp only: sum.inject)
  have year: "CHR 0x0A \<notin> set ?year" by (simp add: pad_nat_line)
  show ?thesis
    by (rule iso_text_shape [OF year pad_nat_line pad_nat_line pad_nat_line pad_nat_line
          pad_nat_line pad_nat_line s])
qed

lemma parseLine_lastUpdated:
  assumes "toISOString t = Inr isoText" "ps_section st = None"
  shows "parseLine filePath now i (''**Last Updated:** '' @ isoText) st = st"
proof -
  have "noSurroundingSpace (''**Last Updated:** '' @ isoText)"
    using toISOString_shape [OF assms(1)] by (simp add: noSurroundingSpace_def isSpace_def)
  then have t: "trim (''**Last Updated:** '' @ isoText) = ''**Last Updated:** '' @ isoText"
    by (rule trim_id)
  show ?thesis unfolding parseLine_def Let_def t using assms(2) by (simp add: startsWith_def)
qed

text \<open>After the header the parser has the display name, the name, the type and the description.\<close>

lemma parse_header:
  assumes "noTrailingSpace (ep_displayName entity)"
    and "noSurroundingSpace (ep_type entity)"
    and "case ep_description entity of
           None \<Rightarrow> True
         | Some d \<Rightarrow> noSurroundingSpace d \<and> \<not> startsWith d ''**'' \<and> \<not> startsWith d ''#''"
    and "toISOString t = Inr isoText"
  shows "parseLines filePath now i (headerLines entity isoText) initialParseState
         = initialParseState
             \<lparr> ps_displayName := Some (ep_displayName entity),
               ps_name := Some (case matchFileName filePath of
                                  Some n \<Rightarrow> n
                                | None \<Rightarrow> replaceWsRuns (toLowerCase (ep_displayName entity))),
               ps_type := Some (ep_type entity),
               ps_description := ep_description entity \<rparr>"
proof -
  have ty: "ep_type entity \<noteq> []" using assms(2) by (simp add: noSurroundingSpace_def)
  show ?thesis
  proof (cases "ep_description entity")
    case None
    then show ?thesis
      using ty
      by (simp add: headerLines_def parseLine_blank parseLine_title [OF assms(1), simplified]
            parseLine_type [OF assms(2), simplified] parseLine_lastUpdated [OF assms(4), simplified]
            initialParseState_def)
  next
    case (Some d)
    with assms(3) have d: "noSurroundingSpace d" "\<not> startsWith d ''**''" "\<not> startsWith d ''#''"
      by simp_all
    then have "d \<noteq> []" by (simp add: noSurroundingSpace_def)
    then show ?thesis
      using ty Some
      by (simp add: headerLines_def parseLine_blank parseLine_title [OF assms(1), simplified]
            parseLine_type [OF assms(2), simplified] parseLine_lastUpdated [OF assms(4), simplified]
            parseLine_description [OF d] initialParseState_def)
  qed
qed

section \<open>Entity names\<close>

lemma collapseHyphens_hd: "\<exists>r. collapseHyphens (d # rest) = d # r"
  by (induction "d # rest" arbitrary: d rest rule: collapseHyphens.induct) auto

lemma noDoubleHyphen_collapse: "noDoubleHyphen (collapseHyphens s)"
proof (induction s rule: collapseHyphens.induct)
  case (1 c d rest)
  obtain r where r: "collapseHyphens (d # rest) = d # r"
    using collapseHyphens_hd by blast
  show ?case using 1 r by auto
qed simp_all

lemma collapseHyphens_Nil: "(collapseHyphens s = []) = (s = [])"
  by (induction s rule: collapseHyphens.induct) auto

lemma set_collapseHyphens: "set (collapseHyphens s) \<subseteq> set s"
  by (induction s rule: collapseHyphens.induct) auto

lemma collapseHyphens_fixed: "noDoubleHyphen s \<Longrightarrow> collapseHyphens s = s"
  by (induction s rule: collapseHyphens.induct) auto

lemma noDoubleHyphen_tl: "noDoubleHyphen (c # s) \<Longrightarrow> noDoubleHyphen s"
  by (cases s) auto

lemma noDoubleHyphen_butlast: "noDoubleHyphen s \<Longrightarrow> noDoubleHyphen (butlast s)"
  by (induction s rule: noDoubleHyphen.induct) (auto split: if_splits)

lemma noDoubleHyphen_last:
  "noDoubleHyphen s \<Longrightarrow> s \<noteq> [] \<Longrightarrow> last s = CHR ''-'' \<Longrightarrow> butlast s = [] \<or> last (butlast s) \<noteq> CHR ''-''"
  by (induction s rule: noDoubleHyphen.induct) (auto split: if_splits)

lemma startsWith_hyphen: "startsWith s ''-'' = (s \<noteq> [] \<and> hd s = CHR ''-'')"
  by (cases s) (auto simp: startsWith_def)

lemma startsWith_butlast:
  "\<not> startsWith s ''-'' \<Longrightarrow> \<not> startsWith (butlast s) ''-''"
  by (cases s) (auto simp: startsWith_def split: if_splits)

lemma isSlug_strip:
  assumes "list_all isSlugChar s" "noDoubleHyphen s"
  shows "isSlug (stripEdgeHyphens s)"
proof -
  define s1 where "s1 = (if startsWith s ''-'' then drop 1 s else s)"
  have a1: "list_all isSlugChar s1"
    using assms(1) by (cases s) (auto simp: s1_def)
  have n1: "noDoubleHyphen s1"
    using assms(2) by (cases s) (auto simp: s1_def dest: noDoubleHyphen_tl)
  have h1: "\<not> startsWith s1 ''-''"
  proof (cases "startsWith s ''-''")
    case True
    then obtain t where s: "s = CHR ''-'' # t" by (cases s) (auto simp: startsWith_def)
    with assms(2) have "\<not> startsWith t ''-''" by (cases t) (auto simp: startsWith_def)
    with True s show ?thesis by (simp add: s1_def)
  next
    case False
    then show ?thesis by (simp add: s1_def)
  qed
  have r: "stripEdgeHyphens s = (if s1 \<noteq> [] \<and> last s1 = CHR ''-'' then butlast s1 else s1)"
    by (simp add: stripEdgeHyphens_def s1_def)
  show ?thesis
  proof (cases "s1 \<noteq> [] \<and> last s1 = CHR ''-''")
    case True
    have "list_all isSlugChar (butlast s1)"
      using a1 by (auto simp: list_all_iff dest: in_set_butlastD)
    moreover have "noDoubleHyphen (butlast s1)" using n1 by (rule noDoubleHyphen_butlast)
    moreover have "\<not> startsWith (butlast s1) ''-''" using h1 by (rule startsWith_butlast)
    moreover have "butlast s1 = [] \<or> last (butlast s1) \<noteq> CHR ''-''"
      using noDoubleHyphen_last [OF n1] True by simp
    ultimately show ?thesis using True by (simp add: r isSlug_def)
  next
    case False
    then show ?thesis using a1 n1 h1 by (auto simp: r isSlug_def)
  qed
qed

lemma isSlug_normalizeEntityName: "isSlug (normalizeEntityName name)"
proof -
  have "list_all isSlugChar (replaceNonSlug (toLowerCase name))"
    by (auto simp: replaceNonSlug_def list_all_iff isSlugChar_def)
  then have "list_all isSlugChar (collapseHyphens (replaceNonSlug (toLowerCase name)))"
    using set_collapseHyphens [of "replaceNonSlug (toLowerCase name)"]
    by (auto simp: list_all_iff)
  then show ?thesis
    unfolding normalizeEntityName_def
    by (rule isSlug_strip) (rule noDoubleHyphen_collapse)
qed

lemma lowerChar_slug: "isSlugChar c \<Longrightarrow> lowerChar c = c"
  by (auto simp: isSlugChar_def lowerChar_def isUpper_def isLower_def isDigit_def)

lemma normalizeEntityName_slug:
  assumes "isSlug s"
  shows "normalizeEntityName s = s"
proof -
  have chars: "list_all isSlugChar s" and nd: "noDoubleHyphen s"
    and st: "\<not> startsWith s ''-''" and en: "s = [] \<or> last s \<noteq> CHR ''-''"
    using assms by (simp_all add: isSlug_def)
  have "toLowerCase s = s"
    using chars by (simp add: toLowerCase_def list_all_iff lowerChar_slug map_idI)
  moreover have "replaceNonSlug s = s"
    using chars by (simp add: replaceNonSlug_def list_all_iff map_idI)
  moreover have "collapseHyphens s = s" using nd by (rule collapseHyphens_fixed)
  moreover have "stripEdgeHyphens s = s"
    using st en by (auto simp: stripEdgeHyphens_def)
  ultimately show ?thesis by (simp add: normalizeEntityName_def)
qed

lemma getEntityFilePath_normalized:
  "getEntityFilePath (normalizeEntityName name) = normalizeEntityName name @ ''.md''"
  using normalizeEntityName_slug [OF isSlug_normalizeEntityName, of name]
  by (simp add: getEntityFilePath_def normalizeEntityName_def)

lemma lowerChar_idem: "lowerChar (lowerChar c) = lowerChar c"
  by (cases c) (auto simp: lowerChar_def isUpper_def)

lemma normalizeEntityName_case:
  "toLowerCase name2 = toLowerCase name \<Longrightarrow> normalizeEntityName name2 = normalizeEntityName name"
  by (simp add: normalizeEntityName_def)

section \<open>Creating an entity\<close>

lemma writeFile_fresh: "map_of fs p = None \<Longrightarrow> writeFile p t fs = fs @ [(p, t)]"
  by (induction fs) (auto split: if_splits)

lemma map_of_writeFile: "map_of (writeFile p t fs) p = Some t"
  by (induction fs) auto

lemma createEntity_exists:
  assumes "map_of (files st) (normalizeEntityName name @ ''.md'') \<noteq> None"
  shows "createEntity host now name options st = (Inl (AlreadyExists name), st \<lparr> dirsExist := True \<rparr>)"
  using assms
  by (simp add: createEntity_def ensureEntityDirs_def getEntityFilePath_normalized Let_def)

lemma createEntity_fresh:
  assumes "map_of (files st) (normalizeEntityName name @ ''.md'') = None"
      and "\<bar>now\<bar> \<le> 8640000000000000"
  shows "\<exists>entity content.
           createEntity host now name options st
             = (Inr entity, \<lparr> dirsExist = True,
                             files = files st @ [(normalizeEntityName name @ ''.md'', content)] \<rparr>)
           \<and> generateEntityPageMarkdown host entity = Inr content
           \<and> ep_name entity = normalizeEntityName name
           \<and> ep_facts entity = [] \<and> ep_relationships entity = []"
proof -
  let ?entity = "\<lparr> ep_name = normalizeEntityName name,
                   ep_displayName = (if falsy (co_displayName options) then name
                                     else the (co_displayName options)),
                   ep_type = (if falsy (co_type options) then ''unknown'' else the (co_type options)),
                   ep_description = co_description options,
                   ep_facts = [],
                   ep_relationships = [],
                   ep_lastUpdated = now,
                   ep_filePath = ''bank/entities/'' @ normalizeEntityName name @ ''.md'' \<rparr>"
  obtain content where c: "generateEntityPageMarkdown host ?entity = Inr content"
    using generateEntityPageMarkdown_valid [of ?entity host] assms(2) by auto
  have "createEntity host now name options st
          = (Inr ?entity, \<lparr> dirsExist = True,
                            files = files st @ [(normalizeEntityName name @ ''.md'', content)] \<rparr>)"
    using assms(1) c
    by (simp add: createEntity_def ensureEntityDirs_def getEntityFilePath_normalized Let_def
          writeFile_fresh)
  with c show ?thesis by (intro exI [of _ ?entity] exI [of _ content]) simp
qed

text \<open>
  C8: the normalized name is a slug (lower-case letters, digits and single hyphens,
  none at an end), and names that differ only in case normalize alike. When the store
  has no file for the normalized name (and the clock is a valid time value),
  \<open>createEntity\<close> succeeds: it returns the entity under the normalized name and adds
  its page as a new file. After that, \<open>createEntity\<close> with any name that normalizes to
  the same slug fails with \<open>AlreadyExists\<close> and leaves the store as it was.
\<close>

theorem createEntity_twice:
  assumes "map_of (files st) (normalizeEntityName name @ ''.md'') = None"
      and "\<bar>now\<bar> \<le> 8640000000000000"
  shows "isSlug (normalizeEntityName name)
       \<and> (\<forall>name2. toLowerCase name2 = toLowerCase name
             \<longrightarrow> normalizeEntityName name2 = normalizeEntityName name)
       \<and> (\<exists>entity content.
             fst (createEntity host now name options st) = Inr entity
             \<and> ep_name entity = normalizeEntityName name
             \<and> generateEntityPageMarkdown host entity = Inr content
             \<and> files (snd (createEntity host now name options st))
                 = files st @ [(normalizeEntityName name @ ''.md'', content)])
       \<and> (\<forall>name2 now2 options2.
             normalizeEntityName name2 = normalizeEntityName name
             \<longrightarrow> createEntity host now2 name2 options2 (snd (createEntity host now name options st))
                 = (Inl (AlreadyExists name2), snd (createEntity host now name options st)))"
proof -
  obtain entity content where
    c: "createEntity host now name options st
          = (Inr entity, \<lparr> dirsExist = True,
                          files = files st @ [(normalizeEntityName name @ ''.md'', content)] \<rparr>)"
    and g: "generateEntityPageMarkdown host entity = Inr content"
    and n: "ep_name entity = normalizeEntityName name"
    using createEntity_fresh [OF assms, of host options] by blast
  let ?st = "\<lparr> dirsExist = True, files = files st @ [(normalizeEntityName name @ ''.md'', content)] \<rparr>"
  have again: "createEntity host now2 name2 options2 ?st = (Inl (AlreadyExists name2), ?st)"
    if "normalizeEntityName name2 = normalizeEntityName name" for name2 now2 options2
  proof -
    have "map_of (files ?st) (normalizeEntityName name2 @ ''.md'') \<noteq> None"
      using that assms(1) by simp
    from createEntity_exists [OF this] show ?thesis by simp
  qed
  have created: "\<exists>entity content.
             fst (createEntity host now name options st) = Inr entity
             \<and> ep_name entity = normalizeEntityName name
             \<and> generateEntityPageMarkdown host entity = Inr content
             \<and> files (snd (createEntity host now name options st))
                 = files st @ [(normalizeEntityName name @ ''.md'', content)]"
    using c g n by (intro exI [of _ entity] exI [of _ content]) simp
  have failing: "\<forall>name2 now2 options2.
             normalizeEntityName name2 = normalizeEntityName name
             \<longrightarrow> createEntity host now2 name2 options2 (snd (createEntity host now name options st))
                 = (Inl (AlreadyExists name2), snd (createEntity host now name options st))"
    unfolding c snd_conv using again by blast
  have cases: "\<forall>name2. toLowerCase name2 = toLowerCase name
             \<longrightarrow> normalizeEntityName name2 = normalizeEntityName name"
    using normalizeEntityName_case by blast
  from isSlug_normalizeEntityName cases created failing show ?thesis
    by (intro conjI)
qed

lemma example_names:
  "normalizeEntityName ''Bob Smith'' = ''bob-smith''"
  "normalizeEntityName ''BOB  smith!'' = ''bob-smith''"
  by code_simp+

theorem createEntity_twice_witness:
  "fst (createEntity example_host 1000 ''Bob Smith''
          \<lparr> co_displayName = None, co_type = Some ''person'', co_description = None \<rparr>
          \<lparr> dirsExist = False, files = [] \<rparr>)
     = Inr \<lparr> ep_name = ''bob-smith'', ep_displayName = ''Bob Smith'', ep_type = ''person'',
             ep_description = None, ep_facts = [], ep_relationships = [], ep_lastUpdated = 1000,
             ep_filePath = ''bank/entities/bob-smith.md'' \<rparr>
   \<and> createEntity example_host 2000 ''BOB  smith!''
          \<lparr> co_displayName = None, co_type = None, co_description = None \<rparr>
          (snd (createEntity example_host 1000 ''Bob Smith''
                  \<lparr> co_displayName = None, co_type = Some ''person'', co_description = None \<rparr>
                  \<lparr> dirsExist = False, files = [] \<rparr>))
     = (Inl (AlreadyExists ''BOB  smith!''),
        snd (createEntity example_host 1000 ''Bob Smith''
               \<lparr> co_displayName = None, co_type = Some ''person'', co_description = None \<rparr>
               \<lparr> dirsExist = False, files = [] \<rparr>))"
proof -
  have h1: "map_of (files \<lparr> dirsExist = False, files = [] \<rparr>) (normalizeEntityName ''Bob Smith'' @ ''.md'') = None"
    by simp
  have h2: "\<bar>1000 :: int\<bar> \<le> 8640000000000000" by simp
  have same: "normalizeEntityName ''BOB  smith!'' = normalizeEntityName ''Bob Smith''"
    by (simp add: example_names)
  have first: "fst (createEntity example_host 1000 ''Bob Smith''
          \<lparr> co_displayName = None, co_type = Some ''person'', co_description = None \<rparr>
          \<lparr> dirsExist = False, files = [] \<rparr>)
     = Inr \<lparr> ep_name = ''bob-smith'', ep_displayName = ''Bob Smith'', ep_type = ''person'',
             ep_description = None, ep_facts = [], ep_relationships = [], ep_lastUpdated = 1000,
             ep_filePath = ''bank/entities/bob-smith.md'' \<rparr>"
    by code_simp
  show ?thesis
    using createEntity_twice [OF h1 h2, of example_host
            "\<lparr> co_displayName = None, co_type = Some ''person'', co_description = None \<rparr>"]
          same first
    by blast
qed

section \<open>Querying entities\<close>

lemma queryLoop_unlimited:
  assumes "qo_limit options = None \<or> qo_limit options = Some 0"
  shows "queryLoop host now options st summaries results
         = results @ filter (passesFilters options now)
                       (List.map_filter (\<lambda>summary. fst (getEntity host now (es_name summary) st)) summaries)"
proof (induction summaries arbitrary: results)
  case Nil
  then show ?case by (simp add: List.map_filter_simps)
next
  case (Cons summary rest)
  have nolimit: "\<not> limitReached options rs" for rs
    using assms by (auto simp: limitReached_def)
  show ?case
    by (cases "fst (getEntity host now (es_name summary) st)")
       (simp_all add: List.map_filter_simps Cons nolimit)
qed

lemma queryLoop_limited:
  assumes "qo_limit options = Some n" and "length results < n"
  shows "queryLoop host now options st summaries results
         = results @ take (n - length results)
                       (filter (passesFilters options now)
                          (List.map_filter (\<lambda>summary. fst (getEntity host now (es_name summary) st)) summaries))"
  using assms(2)
proof (induction summaries arbitrary: results)
  case Nil
  then show ?case by (simp add: List.map_filter_simps)
next
  case (Cons summary rest)
  show ?case
  proof (cases "fst (getEntity host now (es_name summary) st)")
    case None
    then show ?thesis using Cons by (simp add: List.map_filter_simps)
  next
    case (Some entity)
    show ?thesis
    proof (cases "passesFilters options now entity")
      case False
      then show ?thesis using Some Cons by (simp add: List.map_filter_simps)
    next
      case True
      show ?thesis
      proof (cases "Suc (length results) < n")
        case True
        then have "\<not> limitReached options (results @ [entity])"
          using assms(1) by (simp add: limitReached_def)
        moreover have "length (results @ [entity]) < n" using True by simp
        moreover have "n - length results = Suc (n - Suc (length results))"
          using True by simp
        ultimately show ?thesis
          using Some \<open>passesFilters options now entity\<close> Cons.IH [of "results @ [entity]"]
          by (simp add: List.map_filter_simps)
      next
        case False
        then have n: "n = Suc (length results)" using Cons.prems by simp
        then have "limitReached options (results @ [entity])"
          using assms(1) by (simp add: limitReached_def)
        then show ?thesis
          using Some \<open>passesFilters options now entity\<close> n
          by (simp add: List.map_filter_simps)
      qed
    qed
  qed
qed

lemma listEntities_store: "snd (listEntities host now st) = ensureEntityDirs st"
  by (simp add: listEntities_def Let_def)

lemma queryEntities_filter:
  "fst (queryEntities host now options st)
   = (case qo_limit options of
        None \<Rightarrow> filter (passesFilters options now) (storedEntities host now st)
      | Some n \<Rightarrow> if n = 0 then filter (passesFilters options now) (storedEntities host now st)
                  else take n (filter (passesFilters options now) (storedEntities host now st)))"
proof -
  obtain allEntities st1 where l: "listEntities host now st = (allEntities, st1)"
    by (cases "listEntities host now st")
  have st1: "st1 = ensureEntityDirs st" using listEntities_store [of host now st] l by simp
  have q: "fst (queryEntities host now options st) = queryLoop host now options st1 allEntities []"
    by (simp add: queryEntities_def l)
  have s: "storedEntities host now st
           = List.map_filter (\<lambda>summary. fst (getEntity host now (es_name summary) st1)) allEntities"
    by (simp add: storedEntities_def l st1)
  show ?thesis
  proof (cases "qo_limit options")
    case None
    then show ?thesis using queryLoop_unlimited [of options host now st1 allEntities "[]"]
      by (simp add: q s)
  next
    case (Some n)
    show ?thesis
    proof (cases "n = 0")
      case True
      then show ?thesis using Some queryLoop_unlimited [of options host now st1 allEntities "[]"]
        by (simp add: q s)
    next
      case False
      then show ?thesis using Some queryLoop_limited [of options n "[]" host now st1 allEntities]
        by (simp add: q s)
    qed
  qed
qed

lemma passesFilters_iff:
  "passesFilters options now entity =
     ((falsy (qo_factType options)
         \<or> (\<exists>f \<in> set (ep_facts entity). f_type f = the (qo_factType options)))
      \<and> ((qo_since options = None \<and> qo_until options = None)
          \<or> (\<exists>f \<in> set (ep_facts entity).
                 sinceTs options \<le> factTime f \<and> factTime f \<le> untilTs options now)
          \<or> sinceTs options \<le> ep_lastUpdated entity)
      \<and> (falsy (qo_relationType options)
          \<or> (\<exists>r \<in> set (ep_relationships entity). rel_relation r = the (qo_relationType options))))"
  by (auto simp: passesFilters_def list_ex_iff)

lemma example_stored:
  "storedEntities example_host 2000 example_store
   = [\<lparr> ep_name = ''bob'', ep_displayName = ''Bob'', ep_type = ''person'', ep_description = None,
        ep_facts = [], ep_relationships = [], ep_lastUpdated = 1000,
        ep_filePath = ''bank/entities/bob.md'' \<rparr>]"
  by code_simp

text \<open>
  What the code computes: \<open>queryEntities\<close> returns, in the order of the listing, the
  stored records that pass three filters, cut to the first \<open>limit\<close> of them when the
  limit is positive. The filters: when a fact type is given, some fact has it; when
  \<open>since\<close> or \<open>until\<close> is given, some fact's time (\<open>dateRange.start\<close> when set and
  non-zero, else \<open>timestamp\<close>) lies between \<open>since\<close> (or \<open>0\<close>) and \<open>until\<close> (or the
  clock), or the record's \<open>lastUpdated\<close> is not before \<open>since\<close>; when a relationship
  kind is given, some relationship has it. The test of \<open>lastUpdated\<close> has no upper
  bound, unlike the test of the facts two lines above it under the same comment
  \<^verbatim>\<open>// Filter by date range\<close>.
\<close>

lemma queryEntities_exact:
  "fst (queryEntities host now options st)
   = (case qo_limit options of
        None \<Rightarrow> filter (passesFilters options now) (storedEntities host now st)
      | Some n \<Rightarrow> if n = 0 then filter (passesFilters options now) (storedEntities host now st)
                  else take n (filter (passesFilters options now) (storedEntities host now st)))
   \<and> passesFilters options now entity =
       ((falsy (qo_factType options)
           \<or> (\<exists>f \<in> set (ep_facts entity). f_type f = the (qo_factType options)))
        \<and> ((qo_since options = None \<and> qo_until options = None)
            \<or> (\<exists>f \<in> set (ep_facts entity).
                   sinceTs options \<le> factTime f \<and> factTime f \<le> untilTs options now)
            \<or> sinceTs options \<le> ep_lastUpdated entity)
        \<and> (falsy (qo_relationType options)
            \<or> (\<exists>r \<in> set (ep_relationships entity). rel_relation r = the (qo_relationType options))))"
  using queryEntities_filter [of host now options st] passesFilters_iff [of options now entity]
  by (rule conjI)

lemma queryEntities_exact_example:
  "fst (queryEntities example_host 2000
          \<lparr> qo_factType = None, qo_since = Some 500, qo_until = Some 700, qo_relationType = None,
            qo_limit = Some 3 \<rparr> example_store)
     = [\<lparr> ep_name = ''bob'', ep_displayName = ''Bob'', ep_type = ''person'', ep_description = None,
          ep_facts = [], ep_relationships = [], ep_lastUpdated = 1000,
          ep_filePath = ''bank/entities/bob.md'' \<rparr>]
   \<and> fst (queryEntities example_host 2000
          \<lparr> qo_factType = None, qo_since = Some 1500, qo_until = None, qo_relationType = None,
            qo_limit = Some 3 \<rparr> example_store) = []"
  using queryEntities_exact [of example_host 2000
          "\<lparr> qo_factType = None, qo_since = Some 500, qo_until = Some 700, qo_relationType = None,
             qo_limit = Some 3 \<rparr>" example_store
          "\<lparr> ep_name = ''bob'', ep_displayName = ''Bob'', ep_type = ''person'', ep_description = None,
             ep_facts = [], ep_relationships = [], ep_lastUpdated = 1000,
             ep_filePath = ''bank/entities/bob.md'' \<rparr>"]
        queryEntities_exact [of example_host 2000
          "\<lparr> qo_factType = None, qo_since = Some 1500, qo_until = None, qo_relationType = None,
             qo_limit = Some 3 \<rparr>" example_store
          "\<lparr> ep_name = ''bob'', ep_displayName = ''Bob'', ep_type = ''person'', ep_description = None,
             ep_facts = [], ep_relationships = [], ep_lastUpdated = 1000,
             ep_filePath = ''bank/entities/bob.md'' \<rparr>"]
  by (simp add: example_stored falsy_def sinceTs_def)

text \<open>
  C6 (the code departs from the claim): a record without a fact in the date range is
  to match only when its \<open>lastUpdated\<close> lies in \<open>[since, until]\<close>. The store holds the
  entity Bob, created at time 1000 and without facts. The query with \<open>until = 500\<close>,
  asked at time 2000, returns Bob, whose \<open>lastUpdated\<close> 1000 lies after \<open>until\<close>; the
  query of the specification returns nothing.
\<close>

theorem queryEntities_until_divergence:
  "fst (queryEntities example_host 2000
          \<lparr> qo_factType = None, qo_since = None, qo_until = Some 500, qo_relationType = None,
            qo_limit = None \<rparr> example_store)
     = [\<lparr> ep_name = ''bob'', ep_displayName = ''Bob'', ep_type = ''person'', ep_description = None,
          ep_facts = [], ep_relationships = [], ep_lastUpdated = 1000,
          ep_filePath = ''bank/entities/bob.md'' \<rparr>]
   \<and> spec_queryEntities
          \<lparr> qo_factType = None, qo_since = None, qo_until = Some 500, qo_relationType = None,
            qo_limit = None \<rparr> (storedEntities example_host 2000 example_store) = []"
proof -
  have "fst (queryEntities example_host 2000
          \<lparr> qo_factType = None, qo_since = None, qo_until = Some 500, qo_relationType = None,
            qo_limit = None \<rparr> example_store)
     = [\<lparr> ep_name = ''bob'', ep_displayName = ''Bob'', ep_type = ''person'', ep_description = None,
          ep_facts = [], ep_relationships = [], ep_lastUpdated = 1000,
          ep_filePath = ''bank/entities/bob.md'' \<rparr>]"
    by code_simp
  moreover have "spec_queryEntities
          \<lparr> qo_factType = None, qo_since = None, qo_until = Some 500, qo_relationType = None,
            qo_limit = None \<rparr> (storedEntities example_host 2000 example_store) = []"
    unfolding example_stored by (simp add: spec_queryEntities_def spec_matches_def inRange_def)
  ultimately show ?thesis ..
qed

section \<open>Multi-hop retrieval\<close>

subsection \<open>Merging results into the accumulator\<close>

lemma mergeResult_keys:
  "set (map fst (mergeResult hop q r acc)) = insert (resultKey r) (set (map fst acc))"
proof (induction acc)
  case Nil
  then show ?case by simp
next
  case (Cons entry acc)
  obtain k m where entry: "entry = (k, m)" by (cases entry)
  show ?case
  proof (cases "k = resultKey r")
    case True
    then show ?thesis by (simp add: entry)
  next
    case False
    then show ?thesis using Cons by (simp add: entry insert_commute)
  qed
qed

lemma mergeResult_distinct:
  "distinct (map fst acc) \<Longrightarrow> distinct (map fst (mergeResult hop q r acc))"
proof (induction acc)
  case Nil
  then show ?case by simp
next
  case (Cons entry acc)
  obtain k m where entry: "entry = (k, m)" by (cases entry)
  have "k \<notin> set (map fst (mergeResult hop q r acc))" if "k \<noteq> resultKey r"
    using Cons.prems that unfolding mergeResult_keys entry by simp
  then show ?case using Cons by (auto simp: entry)
qed

lemma mergeResult_own_keys:
  "list_all (\<lambda>entry. fst entry = resultKey (mh_result (snd entry))) acc
   \<Longrightarrow> list_all (\<lambda>entry. fst entry = resultKey (mh_result (snd entry))) (mergeResult hop q r acc)"
  by (induction acc) auto

lemma wellKeyed_mergeResult: "wellKeyed acc \<Longrightarrow> wellKeyed (mergeResult hop q r acc)"
  by (simp add: wellKeyed_def mergeResult_distinct mergeResult_own_keys)

lemma wellKeyed_mergeResults: "wellKeyed acc \<Longrightarrow> wellKeyed (mergeResults hop q rs acc)"
  by (induction rs arbitrary: acc) (simp_all add: wellKeyed_mergeResult)

lemma covers_mergeResult: "covers (mergeResult hop q r acc) r"
  by (induction acc) (auto simp: covers_def)

lemma mergeResult_grows:
  "(k, m) \<in> set acc
   \<Longrightarrow> \<exists>m'. (k, m') \<in> set (mergeResult hop q r acc) \<and> sr_score (mh_result m) \<le> sr_score (mh_result m')"
proof (induction acc)
  case Nil
  then show ?case by simp
next
  case (Cons entry acc)
  obtain k0 m0 where entry: "entry = (k0, m0)" by (cases entry)
  show ?case
  proof (cases "(k, m) = (k0, m0)")
    case True
    then have km: "k = k0" "m = m0" by simp_all
    show ?thesis
    proof (cases "k0 = resultKey r \<and> sr_score r > sr_score (mh_result m0)")
      case True
      then have "(k, \<lparr> mh_result = r, mh_hop = hop, mh_query = q \<rparr>) \<in> set (mergeResult hop q r (entry # acc))"
        by (simp add: entry km)
      moreover have "sr_score (mh_result m) \<le> sr_score (mh_result \<lparr> mh_result = r, mh_hop = hop, mh_query = q \<rparr>)"
        using True by (simp add: km)
      ultimately show ?thesis by blast
    next
      case False
      then have "(k, m) \<in> set (mergeResult hop q r (entry # acc))"
        by (auto simp: entry km)
      then show ?thesis by blast
    qed
  next
    case False
    then have "(k, m) \<in> set acc" using Cons.prems entry by auto
    from Cons.IH [OF this] obtain m' where
      m': "(k, m') \<in> set (mergeResult hop q r acc)" "sr_score (mh_result m) \<le> sr_score (mh_result m')"
      by blast
    show ?thesis
    proof (cases "k0 = resultKey r")
      case True
      have "k \<noteq> k0 \<or> (k, m) \<in> set acc" using \<open>(k, m) \<in> set acc\<close> by simp
      have "(k, m) \<in> set (mergeResult hop q r (entry # acc))"
        using \<open>(k, m) \<in> set acc\<close> True by (simp add: entry)
      then show ?thesis by blast
    next
      case False
      then have "(k, m') \<in> set (mergeResult hop q r (entry # acc))"
        using m'(1) by (simp add: entry)
      with m'(2) show ?thesis by blast
    qed
  qed
qed

lemma mergeResults_grows:
  "(k, m) \<in> set acc
   \<Longrightarrow> \<exists>m'. (k, m') \<in> set (mergeResults hop q rs acc) \<and> sr_score (mh_result m) \<le> sr_score (mh_result m')"
proof (induction rs arbitrary: acc m)
  case Nil
  then show ?case by auto
next
  case (Cons r rs)
  obtain m1 where m1: "(k, m1) \<in> set (mergeResult hop q r acc)"
    "sr_score (mh_result m) \<le> sr_score (mh_result m1)"
    using mergeResult_grows [OF Cons.prems] by blast
  obtain m2 where "(k, m2) \<in> set (mergeResults hop q rs (mergeResult hop q r acc))"
    "sr_score (mh_result m1) \<le> sr_score (mh_result m2)"
    using Cons.IH [OF m1(1)] by blast
  with m1(2) show ?case by (auto intro: order_trans)
qed

lemma covers_grows:
  assumes "covers acc r"
  shows "covers (mergeResults hop q rs acc) r"
proof -
  obtain k m where km: "(k, m) \<in> set acc" "k = resultKey r" "sr_score r \<le> sr_score (mh_result m)"
    using assms by (auto simp: covers_def list_ex_iff)
  obtain m' where m': "(k, m') \<in> set (mergeResults hop q rs acc)"
    "sr_score (mh_result m) \<le> sr_score (mh_result m')"
    using mergeResults_grows [OF km(1)] by blast
  have "sr_score r \<le> sr_score (mh_result m')" using km(3) m'(2) by simp
  then have "fst (k, m') = resultKey r \<and> sr_score r \<le> sr_score (mh_result (snd (k, m')))"
    using km(2) by simp
  with m'(1) show ?thesis
    unfolding covers_def list_ex_iff by blast
qed

lemma covers_mergeResults: "r \<in> set rs \<Longrightarrow> covers (mergeResults hop q rs acc) r"
proof (induction rs arbitrary: acc)
  case Nil
  then show ?case by simp
next
  case (Cons r0 rs)
  show ?case
  proof (cases "r = r0")
    case True
    then show ?thesis using covers_grows [OF covers_mergeResult] by simp
  next
    case False
    then show ?thesis using Cons by simp
  qed
qed

lemma mergeResult_origin:
  "(k, m) \<in> set (mergeResult hop q r acc)
   \<Longrightarrow> (k, m) \<in> set acc \<or> (mh_result m = r \<and> mh_hop m = hop \<and> mh_query m = q)"
  by (induction acc) (auto split: if_splits)

lemma mergeResults_origin:
  "(k, m) \<in> set (mergeResults hop q rs acc)
   \<Longrightarrow> (k, m) \<in> set acc \<or> (mh_result m \<in> set rs \<and> mh_hop m = hop \<and> mh_query m = q)"
proof (induction rs arbitrary: acc)
  case Nil
  then show ?case by simp
next
  case (Cons r rs)
  from Cons.IH [of "mergeResult hop q r acc"] Cons.prems
  show ?case using mergeResult_origin [of k m hop q r acc] by auto
qed

lemma mergeResult_covered:
  assumes "wellKeyed acc" "covers acc r"
  shows "mergeResult hop q r acc = acc"
  using assms
proof (induction acc)
  case Nil
  then show ?case by (simp add: covers_def)
next
  case (Cons entry acc)
  obtain k m where entry: "entry = (k, m)" by (cases entry)
  show ?case
  proof (cases "k = resultKey r")
    case True
    have "distinct (map fst ((k, m) # acc))"
      using Cons.prems(1) unfolding wellKeyed_def entry by (rule conjunct1)
    then have notin: "k \<notin> fst ` set acc" by simp
    obtain e where e: "e \<in> set (entry # acc)" "fst e = resultKey r"
      "sr_score r \<le> sr_score (mh_result (snd e))"
      using Cons.prems(2) unfolding covers_def list_ex_iff by blast
    have "e = entry"
    proof (rule ccontr)
      assume "e \<noteq> entry"
      then have "e \<in> set acc" using e(1) by simp
      then have "fst e \<in> fst ` set acc" by (rule imageI)
      then show False using notin e(2) True by simp
    qed
    then have "sr_score r \<le> sr_score (mh_result m)" using e(3) by (simp add: entry)
    then show ?thesis using True by (simp add: entry)
  next
    case False
    have "wellKeyed acc" using Cons.prems(1) by (simp add: wellKeyed_def)
    moreover have "covers acc r" using Cons.prems(2) False by (simp add: covers_def entry)
    ultimately show ?thesis using Cons.IH False by (simp add: entry)
  qed
qed

lemma mergeResults_covered:
  assumes "wellKeyed acc" "\<forall>r \<in> set rs. covers acc r"
  shows "mergeResults hop q rs acc = acc"
  using assms by (induction rs) (simp_all add: mergeResult_covered)

lemma mergeResults_nonempty: "rs \<noteq> [] \<Longrightarrow> mergeResults hop q rs acc \<noteq> []"
proof -
  assume "rs \<noteq> []"
  then obtain r where "r \<in> set rs" by (cases rs) auto
  then have "covers (mergeResults hop q rs acc) r" by (rule covers_mergeResults)
  then show ?thesis by (auto simp: covers_def)
qed

subsection \<open>One turn of the loop\<close>

lemma multiHopLoop_cases:
  assumes "multiHopLoop f M mi rph hop acc q prev s = (outcome, s', calls)"
  obtains
    (finished) "\<not> hop < M" "outcome = Inr acc" "s' = s" "calls = []"
  | (failed) e where "hop < M" "f s q (rph * 2) = (Inl e, s')" "outcome = Inl e"
      "calls = [(q, Inl e)]"
  | (empty) "hop < M" "f s q (rph * 2) = (Inr [], s')" "outcome = Inr acc"
      "calls = [(q, Inr [])]"
  | (stopped) rs where "hop < M" "f s q (rph * 2) = (Inr rs, s')" "rs \<noteq> []"
      "outcome = Inr (mergeResults hop q rs acc)" "calls = [(q, Inr rs)]"
      "(maxScore (scoresOf (mergeResults hop q rs acc)) - prev < mi \<and> hop > 0)
       \<or> (hop < M - 1 \<and> eq_expandedTerms (expandQueryFromResults q rs 2) = [])"
  | (continued) rs s1 q' calls' where "hop < M" "f s q (rph * 2) = (Inr rs, s1)" "rs \<noteq> []"
      "\<not> (maxScore (scoresOf (mergeResults hop q rs acc)) - prev < mi \<and> hop > 0)"
      "q' = (if hop < M - 1 then eq_expanded (expandQueryFromResults q rs 2) else q)"
      "multiHopLoop f M mi rph (hop + 1) (mergeResults hop q rs acc) q'
         (maxScore (scoresOf (mergeResults hop q rs acc))) s1 = (outcome, s', calls')"
      "calls = (q, Inr rs) # calls'"
proof (cases "hop < M")
  case False
  then have "outcome = Inr acc" "s' = s" "calls = []"
    using assms by (simp_all add: multiHopLoop.simps [of f M mi rph hop acc q prev s])
  with False show ?thesis by (rule finished)
next
  case True
  obtain r s1 where fs: "f s q (rph * 2) = (r, s1)" by (cases "f s q (rph * 2)")
  show ?thesis
  proof (cases r)
    case (Inl e)
    then have "outcome = Inl e" "s' = s1" "calls = [(q, Inl e)]"
      using assms True fs by (simp_all add: multiHopLoop.simps [of f M mi rph hop acc q prev s])
    with True fs Inl show ?thesis by (intro failed [of e]) simp_all
  next
    case (Inr rs)
    show ?thesis
    proof (cases "rs = []")
      case True
      then have "outcome = Inr acc" "s' = s1" "calls = [(q, Inr [])]"
        using assms \<open>hop < M\<close> fs Inr
        by (simp_all add: multiHopLoop.simps [of f M mi rph hop acc q prev s])
      with \<open>hop < M\<close> fs Inr True show ?thesis by (intro empty) simp_all
    next
      case False
      let ?merged = "mergeResults hop q rs acc"
      let ?best = "maxScore (scoresOf ?merged)"
      show ?thesis
      proof (cases "?best - prev < mi \<and> hop > 0")
        case True
        then have "outcome = Inr ?merged" "s' = s1" "calls = [(q, Inr rs)]"
          using assms \<open>hop < M\<close> fs Inr False
          by (simp_all add: multiHopLoop.simps [of f M mi rph hop acc q prev s] Let_def)
        with \<open>hop < M\<close> fs Inr False True show ?thesis by (intro stopped [of rs]) simp_all
      next
        case noStop: False
        show ?thesis
        proof (cases "hop < M - 1 \<and> eq_expandedTerms (expandQueryFromResults q rs 2) = []")
          case True
          then have "outcome = Inr ?merged" "s' = s1" "calls = [(q, Inr rs)]"
            using assms \<open>hop < M\<close> fs Inr False noStop
            by (simp_all add: multiHopLoop.simps [of f M mi rph hop acc q prev s] Let_def)
          with \<open>hop < M\<close> fs Inr False True show ?thesis by (intro stopped [of rs]) simp_all
        next
          case goOn: False
          let ?q' = "if hop < M - 1 then eq_expanded (expandQueryFromResults q rs 2) else q"
          obtain outcome2 s2 calls2 where
            rec: "multiHopLoop f M mi rph (hop + 1) ?merged ?q' ?best s1 = (outcome2, s2, calls2)"
            by (cases "multiHopLoop f M mi rph (hop + 1) ?merged ?q' ?best s1")
          have "outcome = outcome2 \<and> s' = s2 \<and> calls = (q, Inr rs) # calls2"
            using assms \<open>hop < M\<close> fs Inr False noStop goOn rec
            by (auto simp: multiHopLoop.simps [of f M mi rph hop acc q prev s] Let_def
                  split: if_splits)
          with \<open>hop < M\<close> fs Inr False noStop rec show ?thesis
            by (intro continued [of rs s1 ?q' calls2]) simp_all
        qed
      qed
    qed
  qed
qed

subsection \<open>The calls and the accumulator of a whole run\<close>

lemma multiHopLoop_calls:
  "multiHopLoop f M mi rph hop acc q prev s = (outcome, s', calls) \<Longrightarrow> length calls \<le> M - hop"
proof (induction "M - hop" arbitrary: hop acc q prev s outcome s' calls)
  case 0
  from "0.prems" show ?case
    using "0.hyps" by (cases rule: multiHopLoop_cases) simp_all
next
  case (Suc n)
  from Suc.prems show ?case
  proof (cases rule: multiHopLoop_cases)
    case (continued rs s1 q' calls')
    have "n = M - (hop + 1)" using Suc.hyps(2) by simp
    from Suc.hyps(1) [OF this continued(6)] continued(1,7) show ?thesis by simp
  qed (use Suc.hyps(2) in simp_all)
qed

lemma multiHopLoop_wellKeyed:
  "multiHopLoop f M mi rph hop acc q prev s = (Inr final, s', calls) \<Longrightarrow> wellKeyed acc
   \<Longrightarrow> wellKeyed final"
proof (induction "M - hop" arbitrary: hop acc q prev s s' calls)
  case 0
  from "0.prems"(1) show ?case
    using "0.hyps" "0.prems"(2) by (cases rule: multiHopLoop_cases) simp_all
next
  case (Suc n)
  from Suc.prems(1) show ?case
  proof (cases rule: multiHopLoop_cases)
    case (continued rs s1 q' calls')
    have "n = M - (hop + 1)" using Suc.hyps(2) by simp
    from Suc.hyps(1) [OF this continued(6) wellKeyed_mergeResults [OF Suc.prems(2)]]
    show ?thesis .
  qed (use Suc.prems(2) wellKeyed_mergeResults in auto)
qed

lemma multiHopLoop_grows:
  "multiHopLoop f M mi rph hop acc q prev s = (Inr final, s', calls) \<Longrightarrow> (k, m) \<in> set acc
   \<Longrightarrow> \<exists>m'. (k, m') \<in> set final \<and> sr_score (mh_result m) \<le> sr_score (mh_result m')"
proof (induction "M - hop" arbitrary: hop acc q prev s s' calls m)
  case 0
  from "0.prems"(1) show ?case
    using "0.hyps" "0.prems"(2) by (cases rule: multiHopLoop_cases) auto
next
  case (Suc n)
  from Suc.prems(1) show ?case
  proof (cases rule: multiHopLoop_cases)
    case (continued rs s1 q' calls')
    have n: "n = M - (hop + 1)" using Suc.hyps(2) by simp
    obtain m1 where m1: "(k, m1) \<in> set (mergeResults hop q rs acc)"
      "sr_score (mh_result m) \<le> sr_score (mh_result m1)"
      using mergeResults_grows [OF Suc.prems(2)] by blast
    obtain m2 where "(k, m2) \<in> set final" "sr_score (mh_result m1) \<le> sr_score (mh_result m2)"
      using Suc.hyps(1) [OF n continued(6) m1(1)] by blast
    with m1(2) show ?thesis by (auto intro: order_trans)
  next
    case (stopped rs)
    then show ?thesis using mergeResults_grows [OF Suc.prems(2), of hop q rs] by simp
  qed (use Suc.prems(2) in auto)
qed

lemma covers_final:
  assumes "multiHopLoop f M mi rph hop acc q prev s = (Inr final, s', calls)" "covers acc r"
  shows "covers final r"
proof -
  obtain k m where km: "(k, m) \<in> set acc" "k = resultKey r" "sr_score r \<le> sr_score (mh_result m)"
    using assms(2) by (auto simp: covers_def list_ex_iff)
  obtain m' where m': "(k, m') \<in> set final" "sr_score (mh_result m) \<le> sr_score (mh_result m')"
    using multiHopLoop_grows [OF assms(1) km(1)] by blast
  have "fst (k, m') = resultKey r \<and> sr_score r \<le> sr_score (mh_result (snd (k, m')))"
    using km(2,3) m'(2) by simp
  with m'(1) show ?thesis unfolding covers_def list_ex_iff by blast
qed

lemma multiHopLoop_covers:
  "multiHopLoop f M mi rph hop acc q prev s = (Inr final, s', calls)
   \<Longrightarrow> (q0, Inr rs0) \<in> set calls \<Longrightarrow> r \<in> set rs0 \<Longrightarrow> covers final r"
proof (induction "M - hop" arbitrary: hop acc q prev s s' calls)
  case 0
  from "0.prems"(1) show ?case
    using "0.hyps" "0.prems"(2) by (cases rule: multiHopLoop_cases) simp_all
next
  case (Suc n)
  from Suc.prems(1) show ?case
  proof (cases rule: multiHopLoop_cases)
    case (continued rs s1 q' calls')
    have n: "n = M - (hop + 1)" using Suc.hyps(2) by simp
    show ?thesis
    proof (cases "(q0, Inr rs0) \<in> set calls'")
      case True
      from Suc.hyps(1) [OF n continued(6) True Suc.prems(3)] show ?thesis .
    next
      case False
      then have "rs0 = rs" using Suc.prems(2) continued(7) by simp
      then have "covers (mergeResults hop q rs acc) r"
        using Suc.prems(3) by (simp add: covers_mergeResults)
      with continued(6) show ?thesis by (rule covers_final)
    qed
  next
    case (stopped rs)
    then show ?thesis using Suc.prems(2,3) by (auto simp: covers_mergeResults)
  next
    case empty
    then show ?thesis using Suc.prems(2,3) by simp
  next
    case finished
    then show ?thesis using Suc.prems(2) by simp
  qed simp
qed

lemma multiHopLoop_origin:
  "multiHopLoop f M mi rph hop acc q prev s = (Inr final, s', calls) \<Longrightarrow> (k, m) \<in> set final
   \<Longrightarrow> (k, m) \<in> set acc
       \<or> (\<exists>rs. (mh_query m, Inr rs) \<in> set calls \<and> mh_result m \<in> set rs)"
proof (induction "M - hop" arbitrary: hop acc q prev s s' calls)
  case 0
  from "0.prems"(1) show ?case
    using "0.hyps" "0.prems"(2) by (cases rule: multiHopLoop_cases) simp_all
next
  case (Suc n)
  from Suc.prems(1) show ?case
  proof (cases rule: multiHopLoop_cases)
    case (continued rs s1 q' calls')
    have n: "n = M - (hop + 1)" using Suc.hyps(2) by simp
    from Suc.hyps(1) [OF n continued(6) Suc.prems(2)]
    show ?thesis
    proof
      assume "(k, m) \<in> set (mergeResults hop q rs acc)"
      from mergeResults_origin [OF this] show ?thesis
        using continued(7) by auto
    next
      assume "\<exists>rs. (mh_query m, Inr rs) \<in> set calls' \<and> mh_result m \<in> set rs"
      then show ?thesis using continued(7) by auto
    qed
  next
    case (stopped rs)
    then show ?thesis using Suc.prems(2) mergeResults_origin [of k m hop q rs acc] by auto
  qed (use Suc.prems(2) in auto)
qed

subsection \<open>The key determines path and lines\<close>

lemma digit_char_inj:
  assumes "d < 10" "d' < 10" "digit_char d = digit_char d'"
  shows "d = d'"
proof -
  have "(of_char (digit_char d) :: nat) = of_char (digit_char d')"
    using assms(3) by (rule arg_cong)
  then have "48 + d = 48 + d'"
    unfolding digit_char_code [OF assms(1)] digit_char_code [OF assms(2)] .
  then show ?thesis by simp
qed

lemma show_nat_inj: "show_nat n = show_nat m \<Longrightarrow> n = m"
proof (induction n arbitrary: m rule: show_nat.induct)
  case (1 n)
  show ?case
  proof (cases "n < 10")
    case small: True
    show ?thesis
    proof (cases "m < 10")
      case True
      have "digit_char n = digit_char m"
        using "1.prems" small True by (simp add: show_nat_small)
      with small True show ?thesis by (rule digit_char_inj)
    next
      case False
      then have "show_nat m = show_nat (m div 10) @ [digit_char (m mod 10)]"
        by (simp add: show_nat_large)
      then have "length (show_nat m) = Suc (length (show_nat (m div 10)))" by simp
      moreover have "length (show_nat (m div 10)) > 0" using show_nat_nonempty by simp
      moreover have "length (show_nat n) = 1" using small by (simp add: show_nat_small)
      ultimately show ?thesis using "1.prems" by simp
    qed
  next
    case large: False
    show ?thesis
    proof (cases "m < 10")
      case True
      have "show_nat n = show_nat (n div 10) @ [digit_char (n mod 10)]"
        using large by (simp add: show_nat_large)
      then have "length (show_nat n) = Suc (length (show_nat (n div 10)))" by simp
      moreover have "length (show_nat (n div 10)) > 0" using show_nat_nonempty by simp
      moreover have "length (show_nat m) = 1" using True by (simp add: show_nat_small)
      ultimately show ?thesis using "1.prems" by simp
    next
      case False
      then have eq: "show_nat (n div 10) = show_nat (m div 10)"
        "digit_char (n mod 10) = digit_char (m mod 10)"
        using "1.prems" large by (simp_all add: show_nat_large)
      have d: "n div 10 = m div 10" using "1.IH" [OF large eq(1)] .
      have r: "n mod 10 = m mod 10"
        by (rule digit_char_inj [OF _ _ eq(2)]) simp_all
      have "n = 10 * (n div 10) + n mod 10" by (rule mult_div_mod_eq [symmetric])
      also have "\<dots> = 10 * (m div 10) + m mod 10" by (simp only: d r)
      also have "\<dots> = m" by (rule mult_div_mod_eq)
      finally show ?thesis .
    qed
  qed
qed

lemma isDigit_chars: "isDigit c \<Longrightarrow> c \<noteq> CHR '':'' \<and> c \<noteq> CHR ''-'' \<and> c \<noteq> CHR ''u''"
  by (auto simp: isDigit_def)

lemma show_int_inj: "show_int i = show_int j \<Longrightarrow> i = j"
proof -
  assume eq: "show_int i = show_int j"
  have nd: "hd (show_nat n) \<noteq> CHR ''-''" for n
    using show_nat_digits [of n] show_nat_nonempty [of n] isDigit_chars
    by (cases "show_nat n") auto
  show ?thesis
  proof (cases "i < 0")
    case True
    show ?thesis
    proof (cases "j < 0")
      case jn: True
      then have "nat (- i) = nat (- j)" using eq True by (simp add: show_int_def show_nat_inj)
      then show ?thesis using True jn by simp
    next
      case False
      then have "CHR ''-'' # show_nat (nat (- i)) = show_nat (nat j)"
        using eq True by (simp add: show_int_def)
      then have "hd (show_nat (nat j)) = CHR ''-''" by (metis list.sel(1))
      then show ?thesis using nd [of "nat j"] by simp
    qed
  next
    case ip: False
    show ?thesis
    proof (cases "j < 0")
      case True
      then have "CHR ''-'' # show_nat (nat (- j)) = show_nat (nat i)"
        using eq ip by (simp add: show_int_def)
      then have "hd (show_nat (nat i)) = CHR ''-''" by (metis list.sel(1))
      then show ?thesis using nd [of "nat i"] by simp
    next
      case False
      then have "nat i = nat j" using eq ip by (simp add: show_int_def show_nat_inj)
      then show ?thesis using ip False by simp
    qed
  qed
qed

lemma show_int_chars: "c \<in> set (show_int i) \<Longrightarrow> c \<noteq> CHR '':'' \<and> c \<noteq> CHR ''u''"
  using show_nat_digits [of "nat i"] show_nat_digits [of "nat (- i)"] isDigit_chars
  by (auto simp: show_int_def list_all_iff split: if_splits)

lemma showLine_no_colon: "CHR '':'' \<notin> set (showLine l)"
  using show_int_chars by (cases l) (auto simp: showLine_def)

lemma showLine_inj:
  assumes "showLine l = showLine l'"
  shows "l = l'"
proof (cases l)
  case None
  show ?thesis
  proof (cases l')
    case (Some n)
    then have "''undefined'' = show_int n" using assms None by (simp add: showLine_def)
    then have "CHR ''u'' \<in> set (show_int n)" by (metis list.set_intros(1))
    then show ?thesis using show_int_chars by blast
  qed (simp add: None)
next
  case (Some n)
  show ?thesis
  proof (cases l')
    case None
    then have "''undefined'' = show_int n" using assms Some by (simp add: showLine_def)
    then have "CHR ''u'' \<in> set (show_int n)" by (metis list.set_intros(1))
    then show ?thesis using show_int_chars by blast
  next
    case inner: (Some n')
    then have "show_int n = show_int n'" using assms Some by (simp add: showLine_def)
    then show ?thesis using Some inner by (simp add: show_int_inj)
  qed
qed

lemma split_last_field:
  assumes "x @ CHR '':'' # a = y @ CHR '':'' # b" "CHR '':'' \<notin> set a" "CHR '':'' \<notin> set b"
  shows "x = y \<and> a = b"
proof -
  have "takeWhile (\<lambda>c. c \<noteq> CHR '':'') (rev (x @ CHR '':'' # a)) = rev a"
    using assms(2) by (auto simp: takeWhile_tail takeWhile_eq_all_conv)
  moreover have "takeWhile (\<lambda>c. c \<noteq> CHR '':'') (rev (y @ CHR '':'' # b)) = rev b"
    using assms(3) by (auto simp: takeWhile_tail takeWhile_eq_all_conv)
  ultimately have "a = b" using assms(1) by (metis rev_rev_ident)
  then show ?thesis using assms(1) by simp
qed

lemma resultKey_inj:
  "(resultKey r = resultKey r')
   = (sr_path r = sr_path r' \<and> sr_startLine r = sr_startLine r' \<and> sr_endLine r = sr_endLine r')"
proof
  assume eq: "resultKey r = resultKey r'"
  have e1: "(sr_path r @ CHR '':'' # showLine (sr_startLine r)) @ CHR '':'' # showLine (sr_endLine r)
          = (sr_path r' @ CHR '':'' # showLine (sr_startLine r')) @ CHR '':'' # showLine (sr_endLine r')"
    using eq by (simp add: resultKey_def)
  from split_last_field [OF e1 showLine_no_colon showLine_no_colon]
  have e2: "sr_path r @ CHR '':'' # showLine (sr_startLine r)
          = sr_path r' @ CHR '':'' # showLine (sr_startLine r')"
    and e3: "showLine (sr_endLine r) = showLine (sr_endLine r')" by simp_all
  from split_last_field [OF e2 showLine_no_colon showLine_no_colon] e3
  show "sr_path r = sr_path r' \<and> sr_startLine r = sr_startLine r' \<and> sr_endLine r = sr_endLine r'"
    by (simp add: showLine_inj)
next
  assume "sr_path r = sr_path r' \<and> sr_startLine r = sr_startLine r' \<and> sr_endLine r = sr_endLine r'"
  then show "resultKey r = resultKey r'" by (simp add: resultKey_def)
qed

subsection \<open>A search without improvement\<close>

lemma multiHopLoop_no_improvement:
  assumes const: "\<And>st query limit. f st query limit = (Inr R, st)"
      and mi: "0 < mi" and hop: "0 < hop"
      and acc: "wellKeyed acc" "\<forall>r \<in> set R. covers acc r"
      and run: "multiHopLoop f M mi rph hop acc q (maxScore (scoresOf acc)) s = (outcome, s', calls)"
  shows "length calls \<le> 1"
  using run
proof (cases rule: multiHopLoop_cases)
  case (continued rs s1 q' calls')
  have "rs = R" using continued(2) const by simp
  then have "mergeResults hop q rs acc = acc"
    using mergeResults_covered [OF acc] by simp
  then have "maxScore (scoresOf (mergeResults hop q rs acc)) - maxScore (scoresOf acc) < mi"
    using mi by simp
  with continued(4) hop show ?thesis by simp
qed simp_all

lemma multiHopLoop_constant_search:
  assumes const: "\<And>st query limit. f st query limit = (Inr R, st)"
      and mi: "0 < mi"
      and run: "multiHopLoop f M mi rph 0 [] q 0 s = (outcome, s', calls)"
  shows "length calls \<le> 2"
  using run
proof (cases rule: multiHopLoop_cases)
  case (continued rs s1 q' calls')
  have rs: "rs = R" using continued(2) const by simp
  have "wellKeyed (mergeResults 0 q rs [])"
    by (rule wellKeyed_mergeResults) (simp add: wellKeyed_def)
  moreover have "\<forall>r \<in> set R. covers (mergeResults 0 q rs []) r"
    using rs covers_mergeResults by blast
  ultimately have "length calls' \<le> 1"
    using multiHopLoop_no_improvement [OF const mi _ _ _ continued(6) [simplified]] by simp
  then show ?thesis using continued(7) by simp
qed simp_all

subsection \<open>The sorted and truncated output\<close>

lemma sortedByScore_descending:
  "sorted_wrt (\<lambda>a b. sr_score (mh_result b) \<le> sr_score (mh_result a)) (sortedByScore final)"
proof -
  have "sorted (map (\<lambda>r. - sr_score (mh_result r)) (sortedByScore final))"
    by (simp add: sortedByScore_def)
  then show ?thesis by (simp add: sorted_map sorted_wrt_iff_nth_less)
qed

lemma sorted_wrt_take: "sorted_wrt P xs \<Longrightarrow> sorted_wrt P (take n xs)"
  by (metis append_take_drop_id sorted_wrt_append)

lemma sortedByScore_keys:
  assumes "wellKeyed final"
  shows "distinct (map (\<lambda>m. resultKey (mh_result m)) (sortedByScore final))"
proof -
  have eq: "map (\<lambda>m. resultKey (mh_result m)) (map snd final) = map fst final"
    using assms by (auto simp: wellKeyed_def list_all_iff)
  have "distinct (map fst final)" using assms by (simp add: wellKeyed_def)
  then have "distinct (map (\<lambda>m. resultKey (mh_result m)) (map snd final))"
    unfolding eq .
  moreover have "mset (map (\<lambda>m. resultKey (mh_result m)) (sortedByScore final))
               = mset (map (\<lambda>m. resultKey (mh_result m)) (map snd final))"
  proof -
    have m: "mset (sortedByScore final) = mset (map snd final)"
      by (simp add: sortedByScore_def)
    have "mset (map (\<lambda>m. resultKey (mh_result m)) (sortedByScore final))
          = image_mset (\<lambda>m. resultKey (mh_result m)) (mset (sortedByScore final))"
      by (rule mset_map)
    also have "\<dots> = image_mset (\<lambda>m. resultKey (mh_result m)) (mset (map snd final))"
      unfolding m ..
    also have "\<dots> = mset (map (\<lambda>m. resultKey (mh_result m)) (map snd final))"
      by (rule mset_map [symmetric])
    finally show ?thesis .
  qed
  ultimately show ?thesis by (metis mset_eq_imp_distinct_iff)
qed

lemma distinct_map_take: "distinct (map g xs) \<Longrightarrow> distinct (map g (take n xs))"
  by (simp add: take_map [symmetric])

subsection \<open>The claim about multi-hop retrieval\<close>

lemma example_run:
  "multiHopRetrieval ''query'' example_search
     \<lparr> mo_maxHops = None, mo_minImprovement = None, mo_resultsPerHop = Some 1 \<rparr> ()
   = (Inr [\<lparr> mh_result = example_results ! 0, mh_hop = 0, mh_query = ''query'' \<rparr>,
           \<lparr> mh_result = example_results ! 1, mh_hop = 0, mh_query = ''query'' \<rparr>],
      (), [(''query'', Inr example_results)])"
  by code_simp

text \<open>
  C3 (as the specification states it, refuted): the output is claimed to be cut to
  \<open>resultsPerHop * hopsRun\<close> entries. With \<open>resultsPerHop = 1\<close> and the default two
  hops, a search that returns two results without terms to expand the query is called
  once, and both results are returned.
\<close>

theorem multiHopRetrieval_truncation_counterexample:
  "\<not> (case multiHopRetrieval ''query'' example_search
             \<lparr> mo_maxHops = None, mo_minImprovement = None, mo_resultsPerHop = Some 1 \<rparr> () of
         (outcome, s', calls) \<Rightarrow>
           (case outcome of Inl e \<Rightarrow> True | Inr out \<Rightarrow> length out \<le> 1 * length calls))"
  unfolding example_run by simp

text \<open>
  C3 (amended): for every query, every search function and every whole number
  \<open>maxHops \<ge> 1\<close> (and for \<open>maxHops = 0\<close>, where nothing is searched),
  \<open>multiHopRetrieval\<close> returns after at most \<open>maxHops\<close> calls of the search function.
  The counts \<open>maxHops\<close> and \<open>resultsPerHop\<close> are natural numbers. The output is the
  accumulated result set sorted by descending score and cut to
  \<open>resultsPerHop * maxHops\<close> entries (\<open>maxHops\<close>, not the number of hops run). The
  accumulator holds one entry per key \<open>path:startLine:endLine\<close>, every entry is a
  result of one of the calls, and every result of every call is covered by an entry of
  its key with at least its score. The loop stops after a hop \<open>> 0\<close> whose best
  accumulated score improves by less than \<open>minImprovement\<close>, and after a hop that is
  not the last when the expansion finds no new terms; so a search that always returns
  the same results is called at most twice when \<open>minImprovement > 0\<close>.
\<close>

theorem multiHopRetrieval_terminates:
  fixes searchFn :: "('s, 'e) searchFn"
  assumes run: "multiHopRetrieval query searchFn options s = (outcome, s', calls)"
  shows "length calls \<le> maxHopsOf options
       \<and> (\<forall>out. outcome = Inr out \<longrightarrow>
             (\<exists>final.
                multiHopLoop searchFn (maxHopsOf options) (minImprovementOf options)
                  (resultsPerHopOf options) 0 [] query 0 s = (Inr final, s', calls)
                \<and> out = take (resultsPerHopOf options * maxHopsOf options) (sortedByScore final)
                \<and> wellKeyed final
                \<and> (\<forall>q rs r. (q, Inr rs) \<in> set calls \<and> r \<in> set rs \<longrightarrow> covers final r)
                \<and> (\<forall>k m. (k, m) \<in> set final \<longrightarrow>
                      (\<exists>rs. (mh_query m, Inr rs) \<in> set calls \<and> mh_result m \<in> set rs)))
             \<and> sorted_wrt (\<lambda>a b. sr_score (mh_result b) \<le> sr_score (mh_result a)) out
             \<and> length out \<le> resultsPerHopOf options * maxHopsOf options
             \<and> distinct (map (\<lambda>m. resultKey (mh_result m)) out))
       \<and> (\<forall>r r'. (resultKey r = resultKey r')
             = (sr_path r = sr_path r' \<and> sr_startLine r = sr_startLine r' \<and> sr_endLine r = sr_endLine r'))
       \<and> (\<forall>M mi rph hop acc q prev st rs st1.
             hop < M \<and> searchFn st q (rph * 2) = (Inr rs, st1) \<and> rs \<noteq> []
             \<and> ((0 < hop \<and> maxScore (scoresOf (mergeResults hop q rs acc)) - prev < mi)
                 \<or> (hop < M - 1 \<and> eq_expandedTerms (expandQueryFromResults q rs 2) = []))
             \<longrightarrow> multiHopLoop searchFn M mi rph hop acc q prev st
                 = (Inr (mergeResults hop q rs acc), st1, [(q, Inr rs)]))
       \<and> (\<forall>R. (\<forall>st q limit. searchFn st q limit = (Inr R, st)) \<and> 0 < minImprovementOf options
             \<longrightarrow> length calls \<le> 2)"
proof -
  let ?M = "maxHopsOf options" and ?mi = "minImprovementOf options"
    and ?rph = "resultsPerHopOf options"
  obtain outcome0 calls0 s0 where
    loop: "multiHopLoop searchFn ?M ?mi ?rph 0 [] query 0 s = (outcome0, s0, calls0)"
    by (cases "multiHopLoop searchFn ?M ?mi ?rph 0 [] query 0 s") auto
  have same: "calls = calls0" "s' = s0"
    using run loop by (auto simp: multiHopRetrieval_def split: sum.splits)
  have bound: "length calls \<le> ?M"
    using multiHopLoop_calls [OF loop] same by simp
  have out: "(\<exists>final.
                multiHopLoop searchFn ?M ?mi ?rph 0 [] query 0 s = (Inr final, s', calls)
                \<and> out = take (?rph * ?M) (sortedByScore final)
                \<and> wellKeyed final
                \<and> (\<forall>q rs r. (q, Inr rs) \<in> set calls \<and> r \<in> set rs \<longrightarrow> covers final r)
                \<and> (\<forall>k m. (k, m) \<in> set final \<longrightarrow>
                      (\<exists>rs. (mh_query m, Inr rs) \<in> set calls \<and> mh_result m \<in> set rs)))
             \<and> sorted_wrt (\<lambda>a b. sr_score (mh_result b) \<le> sr_score (mh_result a)) out
             \<and> length out \<le> ?rph * ?M
             \<and> distinct (map (\<lambda>m. resultKey (mh_result m)) out)"
    if o: "outcome = Inr out" for out
  proof -
    obtain final where f: "outcome0 = Inr final" and t: "out = take (?rph * ?M) (sortedByScore final)"
      using run loop o by (auto simp: multiHopRetrieval_def split: sum.splits)
    have l: "multiHopLoop searchFn ?M ?mi ?rph 0 [] query 0 s = (Inr final, s', calls)"
      using loop f same by simp
    have wk: "wellKeyed final"
      by (rule multiHopLoop_wellKeyed [OF l]) (simp add: wellKeyed_def)
    have cov: "\<forall>q rs r. (q, Inr rs) \<in> set calls \<and> r \<in> set rs \<longrightarrow> covers final r"
      using multiHopLoop_covers [OF l] by blast
    have org: "\<forall>k m. (k, m) \<in> set final \<longrightarrow>
                 (\<exists>rs. (mh_query m, Inr rs) \<in> set calls \<and> mh_result m \<in> set rs)"
      using multiHopLoop_origin [OF l] by auto
    have srt: "sorted_wrt (\<lambda>a b. sr_score (mh_result b) \<le> sr_score (mh_result a)) out"
      unfolding t by (rule sorted_wrt_take) (rule sortedByScore_descending)
    have len: "length out \<le> ?rph * ?M" unfolding t by simp
    have dis: "distinct (map (\<lambda>m. resultKey (mh_result m)) out)"
      unfolding t by (rule distinct_map_take) (rule sortedByScore_keys [OF wk])
    from l t wk cov org srt len dis show ?thesis by blast
  qed
  have stop: "multiHopLoop searchFn M mi rph hop acc q prev st
                = (Inr (mergeResults hop q rs acc), st1, [(q, Inr rs)])"
    if "hop < M \<and> searchFn st q (rph * 2) = (Inr rs, st1) \<and> rs \<noteq> []
        \<and> ((0 < hop \<and> maxScore (scoresOf (mergeResults hop q rs acc)) - prev < mi)
            \<or> (hop < M - 1 \<and> eq_expandedTerms (expandQueryFromResults q rs 2) = []))"
    for M mi rph hop acc q prev st rs st1
    using that
    by (auto simp: multiHopLoop.simps [of searchFn M mi rph hop acc q prev st] Let_def)
  have const: "length calls \<le> 2"
    if "(\<forall>st q limit. searchFn st q limit = (Inr R, st)) \<and> 0 < ?mi" for R
    using multiHopLoop_constant_search [of searchFn R ?mi ?M ?rph query s outcome0 s0 calls0]
      that loop same by simp
  show ?thesis
    using bound out resultKey_inj stop const by (intro conjI allI impI) blast+
qed

theorem multiHopRetrieval_terminates_witness:
  "length [(''query'', Inr example_results :: unit + MemorySearchResult list)] \<le> 2
   \<and> multiHopLoop example_search 2 (1 / 20) 1 0 [] ''query'' 0 ()
     = (Inr (mergeResults 0 ''query'' example_results []), (), [(''query'', Inr example_results)])
   \<and> sorted_wrt (\<lambda>a b. sr_score (mh_result b) \<le> sr_score (mh_result a))
        [\<lparr> mh_result = example_results ! 0, mh_hop = 0, mh_query = ''query'' \<rparr>,
         \<lparr> mh_result = example_results ! 1, mh_hop = 0, mh_query = ''query'' \<rparr>]"
proof -
  have terms: "eq_expandedTerms (expandQueryFromResults ''query'' example_results 2) = []"
    by code_simp
  have search: "example_search () ''query'' (1 * 2) = (Inr example_results, ())"
    by (simp add: example_search_def)
  have ne: "example_results \<noteq> []" by (simp add: example_results_def)
  have opts: "maxHopsOf \<lparr> mo_maxHops = None, mo_minImprovement = None, mo_resultsPerHop = Some 1 \<rparr> = 2"
    "minImprovementOf \<lparr> mo_maxHops = None, mo_minImprovement = None, mo_resultsPerHop = Some 1 \<rparr> = 1 / 20"
    "resultsPerHopOf \<lparr> mo_maxHops = None, mo_minImprovement = None, mo_resultsPerHop = Some 1 \<rparr> = 1"
    by (simp_all add: maxHopsOf_def minImprovementOf_def resultsPerHopOf_def)
  note inst = multiHopRetrieval_terminates [OF example_run]
  have calls: "length [(''query'', Inr example_results :: unit + MemorySearchResult list)] \<le> 2"
    using inst [THEN conjunct1] by (simp add: opts)
  have stop: "multiHopLoop example_search 2 (1 / 20) 1 0 [] ''query'' 0 ()
     = (Inr (mergeResults 0 ''query'' example_results []), (), [(''query'', Inr example_results)])"
    using inst [THEN conjunct2, THEN conjunct2, THEN conjunct2, THEN conjunct1, rule_format,
               of 0 2 "()" "''query''" 1 example_results "()" "[]" 0 "1 / 20"]
          search ne terms by simp
  have srt: "sorted_wrt (\<lambda>a b. sr_score (mh_result b) \<le> sr_score (mh_result a))
        [\<lparr> mh_result = example_results ! 0, mh_hop = 0, mh_query = ''query'' \<rparr>,
         \<lparr> mh_result = example_results ! 1, mh_hop = 0, mh_query = ''query'' \<rparr>]"
    using inst [THEN conjunct2, THEN conjunct1] by simp
  from calls stop srt show ?thesis by (intro conjI)
qed

section \<open>The counts of the capture engine\<close>



lemma successes_failures: "successes outcomes + failures outcomes = length outcomes"
  by (induction outcomes) (simp_all add: successes_def failures_def)










end
